theory Spec2Isabelle
  imports Main "HOL-Library.Word" "HOL-Library.Signed_Division"
begin

unbundle bit_operations_syntax

section \<open>Data model of package capture\<close>

text \<open>
  \<open>time.Time\<close> values are only stored and copied by the code modelled here, so a time is
  an integer (nanoseconds since the zero time); the zero value of \<open>time.Time\<close> is \<open>0\<close>.
  \<open>Protocol\<close> and \<open>ConnState\<close> are Go string types.
\<close>

type_synonym time = int
type_synonym Protocol = string
type_synonym ConnState = string

definition ProtoTCP :: Protocol where "ProtoTCP = ''TCP''"
definition ProtoUDP :: Protocol where "ProtoUDP = ''UDP''"
definition ProtoICMP :: Protocol where "ProtoICMP = ''ICMP''"

definition ConnEstablished :: ConnState where "ConnEstablished = ''ESTABLISHED''"
definition ConnSynSent :: ConnState where "ConnSynSent = ''SYN_SENT''"
definition ConnSynRecv :: ConnState where "ConnSynRecv = ''SYN_RECV''"
definition ConnFinWait1 :: ConnState where "ConnFinWait1 = ''FIN_WAIT1''"
definition ConnFinWait2 :: ConnState where "ConnFinWait2 = ''FIN_WAIT2''"
definition ConnTimeWait :: ConnState where "ConnTimeWait = ''TIME_WAIT''"
definition ConnClose :: ConnState where "ConnClose = ''CLOSE''"
definition ConnCloseWait :: ConnState where "ConnCloseWait = ''CLOSE_WAIT''"
definition ConnLastAck :: ConnState where "ConnLastAck = ''LAST_ACK''"
definition ConnListen :: ConnState where "ConnListen = ''LISTEN''"
definition ConnClosing :: ConnState where "ConnClosing = ''CLOSING''"

text \<open>
  The struct \<open>NetworkPacket\<close>. The fields \<open>ID\<close>, \<open>Serial\<close> and \<open>Protocol\<close> occur in both
  structs, so they carry the prefix \<open>Pkt\<close> here and \<open>Conn\<close> in \<open>Connection\<close>.
\<close>

record NetworkPacket =
  PktID :: string
  PktSerial :: string
  Timestamp :: time
  SrcIP :: string
  SrcPort :: "16 word"
  DstIP :: string
  DstPort :: "16 word"
  PktProtocol :: Protocol
  Length :: int
  Flags :: string
  HTTPMethod :: string
  HTTPPath :: string
  HTTPHost :: string
  HTTPStatus :: int
  Raw :: string

record Connection =
  ConnID :: string
  ConnSerial :: string
  LocalIP :: string
  LocalPort :: "16 word"
  RemoteIP :: string
  RemotePort :: "16 word"
  State :: ConnState
  ConnProtocol :: Protocol
  UID :: int
  FirstSeen :: time
  LastSeen :: time

text \<open>The zero values \<open>capture.NetworkPacket{}\<close> and \<open>capture.Connection{}\<close>.\<close>

definition zeroPacket :: NetworkPacket where
  "zeroPacket = \<lparr>PktID = [], PktSerial = [], Timestamp = 0, SrcIP = [], SrcPort = 0,
     DstIP = [], DstPort = 0, PktProtocol = [], Length = 0, Flags = [], HTTPMethod = [],
     HTTPPath = [], HTTPHost = [], HTTPStatus = 0, Raw = []\<rparr>"

definition zeroConnection :: Connection where
  "zeroConnection = \<lparr>ConnID = [], ConnSerial = [], LocalIP = [], LocalPort = 0,
     RemoteIP = [], RemotePort = 0, State = [], ConnProtocol = [], UID = 0,
     FirstSeen = 0, LastSeen = 0\<rparr>"

section \<open>Machine integers\<close>

text \<open>
  Go's \<open>int\<close> and \<open>int64\<close> are 64 bits wide (a 64-bit build). A value is an integer
  in \<open>[-2^63, 2^63)\<close>, and \<open>wrap64\<close> is the wrap-around of an arithmetic result into
  that range.
\<close>

definition wrap64 :: "int \<Rightarrow> int" where
  "wrap64 x = (x + 2 ^ 63) mod 2 ^ 64 - 2 ^ 63"

section \<open>The ring store (package store)\<close>

text \<open>
  The struct \<open>Store\<close> without its lock. The \<open>int\<close> fields are 64-bit integers whose
  increments wrap around. \<open>connMap\<close> holds pointers \<open>&s.connections[idx]\<close> into the
  slice, which is never reallocated, so a pointer is the index of its slot: reading
  through it reads the slot's current contents. \<open>onChange\<close> is the registered
  callback, \<open>None\<close> for \<open>nil\<close>.
\<close>

record 'cb Store =
  packets :: "NetworkPacket list"
  pktHead :: int
  pktCount :: int
  pktMaxSize :: int
  connections :: "Connection list"
  connHead :: int
  connCount :: int
  connMaxSize :: int
  connMap :: "string \<rightharpoonup> nat"
  onChange :: "'cb option"

record Config =
  MaxPackets :: int
  MaxConnections :: int

definition DefaultMaxPackets :: int where "DefaultMaxPackets = 50000"
definition DefaultMaxConns :: int where "DefaultMaxConns = 10000"

definition New :: "Config \<Rightarrow> 'cb Store" where
  "New cfg =
     (let mp = (if MaxPackets cfg \<le> 0 then DefaultMaxPackets else MaxPackets cfg);
          mc = (if MaxConnections cfg \<le> 0 then DefaultMaxConns else MaxConnections cfg)
      in \<lparr>packets = replicate (nat mp) zeroPacket, pktHead = 0, pktCount = 0,
           pktMaxSize = mp,
           connections = replicate (nat mc) zeroConnection, connHead = 0, connCount = 0,
           connMaxSize = mc, connMap = Map.empty, onChange = None\<rparr>)"

definition SetOnChange :: "'cb Store \<Rightarrow> 'cb option \<Rightarrow> 'cb Store" where
  "SetOnChange s fn = s\<lparr>onChange := fn\<rparr>"

text \<open>
  A run-time panic of a call is the result \<open>None\<close>. \<open>ringSlot\<close> is the index
  \<open>head % max\<close> as the slice accepts it: \<open>%\<close> panics on a zero divisor and truncates
  towards zero (\<open>smod\<close>), so a negative head gives a negative index, and indexing
  panics outside \<open>[0, len)\<close>.
\<close>

definition ringSlot :: "int \<Rightarrow> int \<Rightarrow> nat \<Rightarrow> nat option" where
  "ringSlot head cap len =
     (if cap = 0 then None
      else let idx = head smod cap
           in if 0 \<le> idx \<and> nat idx < len then Some (nat idx) else None)"

text \<open>
  \<open>AddPacket\<close> returns the new store and the callback it invokes after unlocking
  (\<open>None\<close> when it invokes none).
\<close>

definition AddPacket :: "'cb Store \<Rightarrow> NetworkPacket \<Rightarrow> ('cb Store \<times> 'cb option) option" where
  "AddPacket s pkt =
     (case ringSlot (pktHead s) (pktMaxSize s) (length (packets s)) of
        None \<Rightarrow> None
      | Some idx \<Rightarrow>
          (let cb = onChange s
           in Some (s\<lparr>packets := (packets s)[idx := pkt],
                      pktHead := wrap64 (pktHead s + 1),
                      pktCount := (if pktCount s < pktMaxSize s then wrap64 (pktCount s + 1)
                                   else pktCount s)\<rparr>,
                    cb)))"

text \<open>The helpers \<open>uitoa\<close> and \<open>itoa\<close> of the store; \<open>uint\<close> is 64 bits wide.\<close>

function uitoa_loop :: "nat \<Rightarrow> string \<Rightarrow> string" where
  "uitoa_loop u buf =
     (if u > 0 then uitoa_loop (u div 10) (char_of (u mod 10 + 48) # buf) else buf)"
  by pat_completeness auto
termination
  by (relation "measure (\<lambda>(u, buf). u)") auto

declare uitoa_loop.simps [simp del]

definition uitoa :: "nat \<Rightarrow> string" where
  "uitoa u = (if u = 0 then ''0'' else uitoa_loop u [])"

definition itoa :: "int \<Rightarrow> string" where
  "itoa i = (if i < 0 then ''-'' @ uitoa (nat (- i)) else uitoa (nat i))"

definition connKey :: "Connection \<Rightarrow> string" where
  "connKey c = LocalIP c @ '':'' @ itoa (uint (LocalPort c)) @ ''->'' @
               RemoteIP c @ '':'' @ itoa (uint (RemotePort c))"

text \<open>
  \<open>AddConnection\<close>: a key found in \<open>connMap\<close> updates the slot its pointer names and
  returns without a callback; a new key takes the next ring slot.
\<close>

definition AddConnection :: "'cb Store \<Rightarrow> Connection \<Rightarrow> ('cb Store \<times> 'cb option) option" where
  "AddConnection s conn =
     (let key = connKey conn
      in case connMap s key of
           Some i \<Rightarrow>
             Some (s\<lparr>connections := (connections s)
                     [i := (connections s ! i)\<lparr>State := State conn, LastSeen := LastSeen conn\<rparr>]\<rparr>,
                   None)
         | None \<Rightarrow>
             (case ringSlot (connHead s) (connMaxSize s) (length (connections s)) of
                None \<Rightarrow> None
              | Some idx \<Rightarrow>
                  (let cb = onChange s
                   in Some (s\<lparr>connections := (connections s)[idx := conn],
                              connMap := (connMap s)(key \<mapsto> idx),
                              connHead := wrap64 (connHead s + 1),
                              connCount := (if connCount s < connMaxSize s
                                            then wrap64 (connCount s + 1) else connCount s)\<rparr>,
                            cb))))"

text \<open>
  The slot the read loops compute for their \<open>i\<close>-th step:
  \<open>idx := head - 1 - i; if idx < 0 { idx += max }; idx = idx % max\<close>, then the index
  into the slice.
\<close>

definition recentSlot :: "int \<Rightarrow> int \<Rightarrow> nat \<Rightarrow> nat \<Rightarrow> nat option" where
  "recentSlot head cap len i =
     (let idx = wrap64 (wrap64 (head - 1) - int i);
          idx = (if idx < 0 then wrap64 (idx + cap) else idx)
      in ringSlot idx cap len)"

text \<open>
  \<open>GetRecentPackets\<close> and \<open>GetRecentConnections\<close>. \<open>make\<close> panics on a negative
  length. The \<open>nil\<close> slice is the empty list.
\<close>

definition GetRecentPackets :: "'cb Store \<Rightarrow> int \<Rightarrow> NetworkPacket list option" where
  "GetRecentPackets s n0 =
     (let n = (if n0 > pktCount s then pktCount s else n0)
      in if n = 0 then Some []
         else if n < 0 then None
         else those (map (\<lambda>i. map_option (\<lambda>idx. packets s ! idx)
                                 (recentSlot (pktHead s) (pktMaxSize s) (length (packets s)) i))
                         [0..<nat n]))"

definition GetRecentConnections :: "'cb Store \<Rightarrow> int \<Rightarrow> Connection list option" where
  "GetRecentConnections s n0 =
     (let n = (if n0 > connCount s then connCount s else n0)
      in if n = 0 then Some []
         else if n < 0 then None
         else those (map (\<lambda>i. map_option (\<lambda>idx. connections s ! idx)
                                 (recentSlot (connHead s) (connMaxSize s) (length (connections s)) i))
                         [0..<nat n]))"

text \<open>
  \<open>GetConnectionsBySerial\<close>: the loop over \<open>i\<close> stops at \<open>connCount\<close> or once \<open>n\<close>
  results are collected.
\<close>

fun GetConnectionsBySerial_loop ::
  "'cb Store \<Rightarrow> string \<Rightarrow> int \<Rightarrow> nat list \<Rightarrow> Connection list \<Rightarrow> Connection list option" where
  "GetConnectionsBySerial_loop s serial n [] result = Some result"
| "GetConnectionsBySerial_loop s serial n (i # is) result =
     (if int (length result) < n then
        (case recentSlot (connHead s) (connMaxSize s) (length (connections s)) i of
           None \<Rightarrow> None
         | Some idx \<Rightarrow>
             if ConnSerial (connections s ! idx) = serial
             then GetConnectionsBySerial_loop s serial n is (result @ [connections s ! idx])
             else GetConnectionsBySerial_loop s serial n is result)
      else Some result)"

definition GetConnectionsBySerial :: "'cb Store \<Rightarrow> string \<Rightarrow> int \<Rightarrow> Connection list option" where
  "GetConnectionsBySerial s serial n =
     GetConnectionsBySerial_loop s serial n [0..<nat (connCount s)] []"

definition PacketCount :: "'cb Store \<Rightarrow> int" where
  "PacketCount s = pktCount s"

definition ConnectionCount :: "'cb Store \<Rightarrow> int" where
  "ConnectionCount s = connCount s"

definition Clear :: "'cb Store \<Rightarrow> 'cb Store" where
  "Clear s = s\<lparr>pktHead := 0, pktCount := 0, connHead := 0, connCount := 0,
               connMap := Map.empty\<rparr>"

text \<open>
  \<open>ClearDevice\<close>: the first loop ranges over \<open>s.packets[:s.pktCount]\<close>; the second
  ranges over the map and deletes every key whose pointer reads the serial.
\<close>

definition ClearDevice :: "'cb Store \<Rightarrow> string \<Rightarrow> 'cb Store" where
  "ClearDevice s serial =
     s\<lparr>packets :=
         map (\<lambda>p. if PktSerial p = serial then zeroPacket else p)
             (take (nat (pktCount s)) (packets s))
         @ drop (nat (pktCount s)) (packets s),
       connMap :=
         (\<lambda>key. case connMap s key of
                   None \<Rightarrow> None
                 | Some i \<Rightarrow> if ConnSerial (connections s ! i) = serial then None else Some i)\<rparr>"

text \<open>Inserting a sequence of packets, one \<open>AddPacket\<close> call each.\<close>

fun AddPackets :: "'cb Store \<Rightarrow> NetworkPacket list \<Rightarrow> 'cb Store option" where
  "AddPackets s [] = Some s"
| "AddPackets s (p # ps) =
     (case AddPacket s p of None \<Rightarrow> None | Some (s', cb) \<Rightarrow> AddPackets s' ps)"

text \<open>
  A store built by \<open>New\<close> keeps the slice as long as its capacity; while the head is
  not negative every slot index the operations compute is inside the slice.
\<close>

definition wfP :: "'cb Store \<Rightarrow> int \<Rightarrow> bool" where
  "wfP s c \<longleftrightarrow>
     0 < c \<and> c < 2 ^ 63 \<and> pktMaxSize s = c \<and> length (packets s) = nat c \<and>
     0 \<le> pktHead s \<and> 0 \<le> pktCount s \<and> pktCount s \<le> c"

text \<open>The packets of the store's overflow test: \<open>pkt-i\<close> of device \<open>dev1\<close>.\<close>

definition testPkt :: "int \<Rightarrow> NetworkPacket" where
  "testPkt i = zeroPacket\<lparr>PktID := ''pkt-'' @ itoa i, PktSerial := ''dev1''\<rparr>"

text \<open>
  Concrete inputs: a connection with the addresses of the store's connection test, and
  the stores that a new store of capacity 5 becomes by one packet and then one
  connection of device \<open>dev1\<close>.
\<close>

definition testConn :: "string \<Rightarrow> string \<Rightarrow> ConnState \<Rightarrow> time \<Rightarrow> Connection" where
  "testConn cid serial st seen =
     \<lparr>ConnID = cid, ConnSerial = serial, LocalIP = ''10.0.0.1'', LocalPort = 12345,
      RemoteIP = ''93.184.216.34'', RemotePort = 443, State = st, ConnProtocol = ProtoTCP,
      UID = 1000, FirstSeen = seen, LastSeen = seen\<rparr>"

definition devPkt :: "string \<Rightarrow> string \<Rightarrow> NetworkPacket" where
  "devPkt pid serial = zeroPacket\<lparr>PktID := pid, PktSerial := serial\<rparr>"

definition store5 :: "unit Store" where
  "store5 = New \<lparr>MaxPackets = 5, MaxConnections = 5\<rparr>"

definition store5P :: "unit Store" where
  "store5P = store5\<lparr>packets := [devPkt ''p1'' ''dev1'', zeroPacket, zeroPacket, zeroPacket,
                                   zeroPacket],
                      pktHead := 1, pktCount := 1\<rparr>"

definition clearDeviceInput :: "unit Store" where
  "clearDeviceInput =
     store5P\<lparr>connections := [testConn ''c1'' ''dev1'' ConnEstablished 10, zeroConnection,
                                 zeroConnection, zeroConnection, zeroConnection],
              connMap := [connKey (testConn ''c1'' ''dev1'' ConnEstablished 10) \<mapsto> 0],
              connHead := 1, connCount := 1\<rparr>"

text \<open>
  Connections of two devices with three different address pairs, a second sighting of
  the first pair, and the stores that a new store of capacity 2 becomes by inserting the
  first three in turn.
\<close>

definition ringConn :: "string \<Rightarrow> string \<Rightarrow> string \<Rightarrow> ConnState \<Rightarrow> time \<Rightarrow> Connection" where
  "ringConn cid serial lip st seen =
     \<lparr>ConnID = cid, ConnSerial = serial, LocalIP = lip, LocalPort = 12345,
      RemoteIP = ''93.184.216.34'', RemotePort = 443, State = st, ConnProtocol = ProtoTCP,
      UID = 1000, FirstSeen = seen, LastSeen = seen\<rparr>"

definition connA :: Connection where
  "connA = ringConn ''a'' ''dev1'' ''10.0.0.1'' ConnEstablished 10"

definition connB :: Connection where
  "connB = ringConn ''b'' ''dev1'' ''10.0.0.2'' ConnEstablished 20"

definition connC :: Connection where
  "connC = ringConn ''c'' ''dev2'' ''10.0.0.3'' ConnEstablished 30"

definition connA2 :: Connection where
  "connA2 = ringConn ''a2'' ''dev1'' ''10.0.0.1'' ConnTimeWait 40"

definition store2 :: "unit Store" where
  "store2 = New \<lparr>MaxPackets = 2, MaxConnections = 2\<rparr>"

definition store2A :: "unit Store" where
  "store2A = store2\<lparr>connections := [connA, zeroConnection],
                      connMap := [connKey connA \<mapsto> 0], connHead := 1, connCount := 1\<rparr>"

definition store2AB :: "unit Store" where
  "store2AB = store2A\<lparr>connections := [connA, connB],
                        connMap := [connKey connA \<mapsto> 0, connKey connB \<mapsto> 1],
                        connHead := 2, connCount := 2\<rparr>"

definition store2ABC :: "unit Store" where
  "store2ABC = store2AB\<lparr>connections := [connC, connB],
                          connMap := [connKey connA \<mapsto> 0, connKey connB \<mapsto> 1,
                                      connKey connC \<mapsto> 0],
                          connHead := 3\<rparr>"

section \<open>Wire framing (package adb)\<close>

text \<open>
  A connection read by \<open>io.ReadFull\<close> or written by \<open>io.WriteString\<close> is the list of
  bytes still to come, or written so far. \<open>io.ReadFull\<close> returns \<open>io.EOF\<close> when no byte
  could be read and \<open>io.ErrUnexpectedEOF\<close> when the input ends inside the buffer.
\<close>

datatype io_error = EOF | ErrUnexpectedEOF

datatype adb_error =
    ReadingLengthPrefix io_error
  | ErrProtocol char
  | ReadingPayload "32 word" io_error

definition ReadFull :: "nat \<Rightarrow> string \<Rightarrow> io_error + (string \<times> string)" where
  "ReadFull n r =
     (if n \<le> length r then Inr (take n r, drop n r)
      else if r = [] then Inl EOF else Inl ErrUnexpectedEOF)"

text \<open>
  \<open>fmt.Sprintf("%04x", n)\<close> for \<open>n \<ge> 0\<close>: the lower-case hexadecimal digits of \<open>n\<close>,
  padded with zeros on the left to at least four characters.
\<close>

definition hexdigit :: "nat \<Rightarrow> char" where
  "hexdigit d = ''0123456789abcdef'' ! d"

function hexstr :: "nat \<Rightarrow> string" where
  "hexstr n = (if n < 16 then [hexdigit n] else hexstr (n div 16) @ [hexdigit (n mod 16)])"
  by pat_completeness auto
termination
  by (relation "measure id") auto

declare hexstr.simps [simp del]

definition Sprintf_04x :: "nat \<Rightarrow> string" where
  "Sprintf_04x n = replicate (4 - length (hexstr n)) CHR ''0'' @ hexstr n"

text \<open>\<open>writeCommand\<close> appends the message to what the writer holds.\<close>

definition writeCommand :: "string \<Rightarrow> string \<Rightarrow> string" where
  "writeCommand w cmd = w @ Sprintf_04x (length cmd) @ cmd"

text \<open>
  The loop of \<open>ReadLengthPrefixed\<close> over the four bytes of the prefix; \<open>length\<close> is a
  \<open>uint32\<close> and the bytes are \<open>uint8\<close>, whose subtraction wraps.
\<close>

fun parseLength :: "string \<Rightarrow> 32 word \<Rightarrow> adb_error + 32 word" where
  "parseLength [] len = Inr len"
| "parseLength (c # cs) len0 =
     (let len = push_bit 4 len0; b = (of_char c :: 8 word) in
      if b \<ge> of_char CHR ''0'' \<and> b \<le> of_char CHR ''9''
        then parseLength cs (len OR ucast (b - of_char CHR ''0''))
      else if b \<ge> of_char CHR ''a'' \<and> b \<le> of_char CHR ''f''
        then parseLength cs (len OR (ucast (b - of_char CHR ''a'') + 10))
      else if b \<ge> of_char CHR ''A'' \<and> b \<le> of_char CHR ''F''
        then parseLength cs (len OR (ucast (b - of_char CHR ''A'') + 10))
      else Inl (ErrProtocol c))"

text \<open>\<open>ReadLengthPrefixed\<close> returns its result and the rest of the input.\<close>

definition ReadLengthPrefixed :: "string \<Rightarrow> (adb_error + string) \<times> string" where
  "ReadLengthPrefixed r =
     (case ReadFull 4 r of
        Inl e \<Rightarrow> (Inl (ReadingLengthPrefix e), [])
      | Inr (lengthBuf, r1) \<Rightarrow>
          (case parseLength lengthBuf 0 of
             Inl e \<Rightarrow> (Inl e, r1)
           | Inr len \<Rightarrow>
               if len = 0 then (Inr [], r1)
               else (case ReadFull (unat len) r1 of
                       Inl e \<Rightarrow> (Inl (ReadingPayload len e), [])
                     | Inr (payload, r2) \<Rightarrow> (Inr payload, r2))))"

text \<open>A hexadecimal digit, as the framing rule of the protocol names it.\<close>

definition isHexDigit :: "char \<Rightarrow> bool" where
  "isHexDigit c \<longleftrightarrow> c \<in> set ''0123456789abcdefABCDEF''"

section \<open>Tracker reconnect loop (package tracker)\<close>

text \<open>
  \<open>time.Duration\<close> is an \<open>int64\<close> count of nanoseconds; its multiplication wraps
  around (\<open>wrap64\<close>).
\<close>

type_synonym Duration = int

definition Second :: Duration where "Second = 1000000000"
definition reconnectBaseDelay :: Duration where "reconnectBaseDelay = wrap64 (1 * Second)"
definition reconnectMaxDelay :: Duration where "reconnectMaxDelay = wrap64 (30 * Second)"

text \<open>
  One pass of the loop of \<open>Tracker.Run\<close>, as the scope and the connection decide it: the
  scope is already cancelled at the first \<open>select\<close>; or it is cancelled when \<open>stream\<close>
  returns; or it is cancelled during the wait; or \<open>stream\<close> has failed, the scope is
  live and \<open>time.After(delay)\<close> fires. \<open>stream\<close> returns only with an error or on
  cancellation.
\<close>

datatype pass = CancelledAtStart | CancelledInStream | CancelledInWait | StreamLost

text \<open>
  The loop over the passes that happen. It returns the delays it has waited in full and
  whether \<open>Run\<close> has returned (with \<open>ctx.Err()\<close>); when the passes run out \<open>Run\<close> is
  still looping.
\<close>

fun Run_loop :: "Duration \<Rightarrow> pass list \<Rightarrow> Duration list \<Rightarrow> Duration list \<times> bool" where
  "Run_loop delay [] waited = (waited, False)"
| "Run_loop delay (CancelledAtStart # ps) waited = (waited, True)"
| "Run_loop delay (CancelledInStream # ps) waited = (waited, True)"
| "Run_loop delay (CancelledInWait # ps) waited = (waited, True)"
| "Run_loop delay (StreamLost # ps) waited =
     Run_loop (min (wrap64 (delay * 2)) reconnectMaxDelay) ps (waited @ [delay])"

definition Run :: "pass list \<Rightarrow> Duration list \<times> bool" where
  "Run ps = Run_loop reconnectBaseDelay ps []"

text \<open>The delay sequence 1, 2, 4, 8, 16, 30, 30, ... in seconds, by position.\<close>

definition backoffDelay :: "nat \<Rightarrow> Duration" where
  "backoffDelay i = (if i < 5 then 2 ^ i else 30) * Second"

section \<open>Socket-table parser (package capture, procnet.go)\<close>

text \<open>
  The functions of Go's standard library that the parsers call, on byte strings.

  White space is what \<open>unicode.IsSpace\<close> accepts: the six ASCII characters (tab, line
  feed, vertical tab, form feed, carriage return, space), U+0085, U+00A0, U+1680,
  U+2000 to U+200A, U+2028, U+2029, U+202F, U+205F and U+3000, here in their UTF-8
  encoding. The first byte of each encoding is never a continuation byte, so Go's decoder
  reads such a byte sequence as that character wherever it occurs in a string.
\<close>

definition spaceRunes :: "string list" where
  "spaceRunes =
     [[CHR 0x09], [CHR 0x0A], [CHR 0x0B], [CHR 0x0C], [CHR 0x0D], [CHR 0x20],
      [CHR 0xC2, CHR 0x85], [CHR 0xC2, CHR 0xA0],
      [CHR 0xE1, CHR 0x9A, CHR 0x80],
      [CHR 0xE2, CHR 0x80, CHR 0x80], [CHR 0xE2, CHR 0x80, CHR 0x81],
      [CHR 0xE2, CHR 0x80, CHR 0x82], [CHR 0xE2, CHR 0x80, CHR 0x83],
      [CHR 0xE2, CHR 0x80, CHR 0x84], [CHR 0xE2, CHR 0x80, CHR 0x85],
      [CHR 0xE2, CHR 0x80, CHR 0x86], [CHR 0xE2, CHR 0x80, CHR 0x87],
      [CHR 0xE2, CHR 0x80, CHR 0x88], [CHR 0xE2, CHR 0x80, CHR 0x89],
      [CHR 0xE2, CHR 0x80, CHR 0x8A],
      [CHR 0xE2, CHR 0x80, CHR 0xA8], [CHR 0xE2, CHR 0x80, CHR 0xA9],
      [CHR 0xE2, CHR 0x80, CHR 0xAF], [CHR 0xE2, CHR 0x81, CHR 0x9F],
      [CHR 0xE3, CHR 0x80, CHR 0x80]]"

definition HasPrefix :: "string \<Rightarrow> string \<Rightarrow> bool" where
  "HasPrefix s pre \<longleftrightarrow> take (length pre) s = pre"

text \<open>The width in bytes of the token of \<open>toks\<close> that \<open>s\<close> starts with, 0 when there is none.\<close>

definition tokenWidth :: "string list \<Rightarrow> string \<Rightarrow> nat" where
  "tokenWidth toks s = (case find (HasPrefix s) toks of None \<Rightarrow> 0 | Some t \<Rightarrow> length t)"

text \<open>
  Removing the leading tokens of a string; \<open>skip\<close> counts the bytes of the current token
  that are still to be passed.
\<close>

fun trimTokens :: "string list \<Rightarrow> nat \<Rightarrow> string \<Rightarrow> string" where
  "trimTokens toks skip [] = []"
| "trimTokens toks (Suc k) (c # cs) = trimTokens toks k cs"
| "trimTokens toks 0 (c # cs) =
     (case tokenWidth toks (c # cs) of
        0 \<Rightarrow> c # cs
      | Suc k \<Rightarrow> trimTokens toks k cs)"

text \<open>
  \<open>strings.TrimSpace\<close>: the white space at the start goes, then the white space at the end
  (a string ends with a character when its reverse starts with the reversed encoding).
\<close>

definition TrimSpace :: "string \<Rightarrow> string" where
  "TrimSpace s = rev (trimTokens (map rev spaceRunes) 0 (rev (trimTokens spaceRunes 0 s)))"

text \<open>\<open>strings.Split(s, sep)\<close> for a one-byte separator; the accumulator holds the current piece, reversed.\<close>

fun Split_acc :: "char \<Rightarrow> string \<Rightarrow> string \<Rightarrow> string list" where
  "Split_acc sep cur [] = [rev cur]"
| "Split_acc sep cur (c # cs) =
     (if c = sep then rev cur # Split_acc sep [] cs else Split_acc sep (c # cur) cs)"

definition Split :: "string \<Rightarrow> char \<Rightarrow> string list" where
  "Split s sep = Split_acc sep [] s"

text \<open>\<open>strings.SplitN(s, sep, 2)\<close> for a one-byte separator.\<close>

definition SplitN2 :: "string \<Rightarrow> char \<Rightarrow> string list" where
  "SplitN2 s sep =
     (if sep \<in> set s
      then [takeWhile (\<lambda>c. c \<noteq> sep) s, tl (dropWhile (\<lambda>c. c \<noteq> sep) s)]
      else [s])"

text \<open>
  \<open>strings.Fields\<close>: the pieces between runs of white space. \<open>cur\<close> is the current
  piece, reversed; \<open>skip\<close> counts the bytes of a white-space character still to be passed.
\<close>

fun Fields_acc :: "string \<Rightarrow> nat \<Rightarrow> string \<Rightarrow> string list" where
  "Fields_acc cur skip [] = (if cur = [] then [] else [rev cur])"
| "Fields_acc cur (Suc k) (c # cs) = Fields_acc cur k cs"
| "Fields_acc cur 0 (c # cs) =
     (case tokenWidth spaceRunes (c # cs) of
        0 \<Rightarrow> Fields_acc (c # cur) 0 cs
      | Suc k \<Rightarrow> (if cur = [] then Fields_acc [] k cs else rev cur # Fields_acc [] k cs))"

definition Fields :: "string \<Rightarrow> string list" where
  "Fields s = Fields_acc [] 0 s"

definition Join :: "string list \<Rightarrow> string \<Rightarrow> string" where
  "Join parts sep = (case parts of [] \<Rightarrow> [] | p # ps \<Rightarrow> p @ concat (map (\<lambda>q. sep @ q) ps))"

text \<open>The value of one hexadecimal digit (\<open>fromHexChar\<close> of encoding/hex).\<close>

definition fromHexChar :: "char \<Rightarrow> int option" where
  "fromHexChar c =
     (let n = (of_char c :: int) in
      if 48 \<le> n \<and> n \<le> 57 then Some (n - 48)
      else if 97 \<le> n \<and> n \<le> 102 then Some (n - 97 + 10)
      else if 65 \<le> n \<and> n \<le> 70 then Some (n - 65 + 10)
      else None)"

datatype procnet_error =
    InvalidAddrFormat string
  | ErrLength
  | InvalidByteError char
  | UnknownIPHexLength nat
  | InvalidPort string

text \<open>\<open>hex.DecodeString\<close>: two digits a byte; an odd length or a byte that is no digit fails.\<close>

fun DecodeString :: "string \<Rightarrow> procnet_error + 8 word list" where
  "DecodeString [] = Inr []"
| "DecodeString [c] =
     (case fromHexChar c of None \<Rightarrow> Inl (InvalidByteError c) | Some _ \<Rightarrow> Inl ErrLength)"
| "DecodeString (a # b # cs) =
     (case fromHexChar a of
        None \<Rightarrow> Inl (InvalidByteError a)
      | Some x \<Rightarrow>
          (case fromHexChar b of
             None \<Rightarrow> Inl (InvalidByteError b)
           | Some y \<Rightarrow>
               (case DecodeString cs of
                  Inl e \<Rightarrow> Inl e
                | Inr bs \<Rightarrow> Inr (of_int (x * 16 + y) # bs))))"

text \<open>
  \<open>%d\<close>, \<open>%x\<close> and \<open>%02X\<close> of an unsigned value. The value is an integer that is
  not negative.
\<close>

function decstr :: "int \<Rightarrow> string" where
  "decstr n = (if n < 10 then [char_of (n + 48)] else decstr (n div 10) @ [char_of (n mod 10 + 48)])"
  by pat_completeness auto
termination
  by (relation "measure nat") auto

definition lowerHexDigit :: "int \<Rightarrow> char" where
  "lowerHexDigit d = ''0123456789abcdef'' ! nat d"

function Sprintf_x :: "int \<Rightarrow> string" where
  "Sprintf_x n =
     (if n < 16 then [lowerHexDigit n] else Sprintf_x (n div 16) @ [lowerHexDigit (n mod 16)])"
  by pat_completeness auto
termination
  by (relation "measure nat") auto

declare Sprintf_x.simps [simp del]

declare decstr.simps [simp del]

definition HEXdigit :: "int \<Rightarrow> char" where
  "HEXdigit d = ''0123456789ABCDEF'' ! nat d"

function HEXstr :: "int \<Rightarrow> string" where
  "HEXstr n = (if n < 16 then [HEXdigit n] else HEXstr (n div 16) @ [HEXdigit (n mod 16)])"
  by pat_completeness auto
termination
  by (relation "measure nat") auto

declare HEXstr.simps [simp del]

definition Sprintf_02X :: "int \<Rightarrow> string" where
  "Sprintf_02X n = replicate (2 - length (HEXstr n)) CHR ''0'' @ HEXstr n"

text \<open>
  \<open>strconv.ParseUint(s, base, bitSize)\<close> for a base from 2 to 36 and a bit size from 1
  to 64, with the error it returns (\<open>None\<close> for \<open>nil\<close>). The loop stops at the first
  byte that is no digit of the base (value 0, syntax error) or at the first digit that
  takes the value out of range (largest value of the size, range error), whichever
  comes first.
\<close>

datatype NumError = ErrSyntax | ErrRange

definition digitVal :: "char \<Rightarrow> int option" where
  "digitVal c =
     (let n = (of_char c :: int); l = (of_char c OR (0x20 :: 8 word)) in
      if 48 \<le> n \<and> n \<le> 57 then Some (n - 48)
      else if 97 \<le> uint l \<and> uint l \<le> 122 then Some (uint l - 97 + 10)
      else None)"

fun ParseUint_loop :: "int \<Rightarrow> int \<Rightarrow> int \<Rightarrow> string \<Rightarrow> int \<Rightarrow> int \<times> NumError option" where
  "ParseUint_loop base cutoff maxVal [] n = (n, None)"
| "ParseUint_loop base cutoff maxVal (c # cs) n =
     (case digitVal c of
        None \<Rightarrow> (0, Some ErrSyntax)
      | Some d \<Rightarrow>
          if d \<ge> base then (0, Some ErrSyntax)
          else if n \<ge> cutoff then (maxVal, Some ErrRange)
          else let n1 = n * base + d
               in if n1 \<ge> 2 ^ 64 \<or> n1 > maxVal then (maxVal, Some ErrRange)
                  else ParseUint_loop base cutoff maxVal cs n1)"

definition ParseUint :: "string \<Rightarrow> int \<Rightarrow> nat \<Rightarrow> int \<times> NumError option" where
  "ParseUint s base bitSize =
     (if s = [] then (0, Some ErrSyntax)
      else ParseUint_loop base ((2 ^ 64 - 1) div base + 1) (2 ^ bitSize - 1) s 0)"

text \<open>
  \<open>strconv.ParseInt(s, 10, 64)\<close> and \<open>strconv.Atoi\<close> (\<open>int\<close> is 64 bits wide). \<open>Atoi\<close>
  takes its fast path for 1 to 18 bytes.
\<close>

definition ParseInt10 :: "string \<Rightarrow> int \<times> NumError option" where
  "ParseInt10 s0 =
     (if s0 = [] then (0, Some ErrSyntax)
      else
        let neg = (hd s0 = CHR ''-'');
            s = (if hd s0 = CHR ''+'' \<or> hd s0 = CHR ''-'' then tl s0 else s0)
        in case ParseUint s 10 64 of
             (un, Some ErrSyntax) \<Rightarrow> (0, Some ErrSyntax)
           | (un, err) \<Rightarrow>
               if \<not> neg \<and> un \<ge> 2 ^ 63 then (2 ^ 63 - 1, Some ErrRange)
               else if neg \<and> un > 2 ^ 63 then (- (2 ^ 63), Some ErrRange)
               else (if neg then wrap64 (- wrap64 un) else wrap64 un, None))"

fun Atoi_loop :: "string \<Rightarrow> int \<Rightarrow> int option" where
  "Atoi_loop [] n = Some n"
| "Atoi_loop (c # cs) n =
     (let ch = (of_char c :: 8 word) - 48
      in if ch > 9 then None else Atoi_loop cs (wrap64 (wrap64 (n * 10) + uint ch)))"

definition Atoi :: "string \<Rightarrow> int \<times> NumError option" where
  "Atoi s0 =
     (if 0 < length s0 \<and> length s0 < 19 then
        (let s = (if hd s0 = CHR ''-'' \<or> hd s0 = CHR ''+'' then tl s0 else s0)
         in if length s < 1 then (0, Some ErrSyntax)
            else case Atoi_loop s 0 of
                   None \<Rightarrow> (0, Some ErrSyntax)
                 | Some n \<Rightarrow> (if hd s0 = CHR ''-'' then wrap64 (- n) else n, None))
      else ParseInt10 s0)"

text \<open>\<open>parseHexIP\<close>: eight digits are an IPv4 address, thirty-two an IPv6 address.\<close>

definition ipv6Parts :: "8 word list \<Rightarrow> nat \<Rightarrow> string list" where
  "ipv6Parts b i =
     (let off = i * 4;
          w = (push_bit 24 (ucast (b ! (off + 3)) :: 32 word)
               OR push_bit 16 (ucast (b ! (off + 2)))
               OR push_bit 8 (ucast (b ! (off + 1)))
               OR ucast (b ! off))
      in [Sprintf_x (uint (drop_bit 16 w)), Sprintf_x (uint (w AND 0xFFFF))])"

definition parseHexIP :: "string \<Rightarrow> procnet_error + string" where
  "parseHexIP h =
     (if length h = 8 then
        (case DecodeString h of
           Inl e \<Rightarrow> Inl e
         | Inr b \<Rightarrow> Inr (decstr (uint (b ! 3)) @ ''.'' @ decstr (uint (b ! 2)) @ ''.'' @
                        decstr (uint (b ! 1)) @ ''.'' @ decstr (uint (b ! 0))))
      else if length h = 32 then
        (case DecodeString h of
           Inl e \<Rightarrow> Inl e
         | Inr b \<Rightarrow> Inr (Join (concat (map (ipv6Parts b) [0, 1, 2, 3])) '':''))
      else Inl (UnknownIPHexLength (length h)))"

definition parseHexAddr :: "string \<Rightarrow> procnet_error + (string \<times> 16 word)" where
  "parseHexAddr addr =
     (let parts = SplitN2 addr CHR '':'' in
      if length parts \<noteq> 2 then Inl (InvalidAddrFormat addr)
      else case parseHexIP (parts ! 0) of
             Inl e \<Rightarrow> Inl e
           | Inr ip \<Rightarrow>
               (case ParseUint (parts ! 1) 16 16 of
                  (port, None) \<Rightarrow> Inr (ip, of_int port)
                | (_, Some err) \<Rightarrow> Inl (InvalidPort (parts ! 1))))"

definition parseConnState :: "string \<Rightarrow> ConnState" where
  "parseConnState hexState =
     (let v = fst (ParseUint hexState 16 8) in
      if v = 0x01 then ConnEstablished
      else if v = 0x02 then ConnSynSent
      else if v = 0x03 then ConnSynRecv
      else if v = 0x04 then ConnFinWait1
      else if v = 0x05 then ConnFinWait2
      else if v = 0x06 then ConnTimeWait
      else if v = 0x07 then ConnClose
      else if v = 0x08 then ConnCloseWait
      else if v = 0x09 then ConnLastAck
      else if v = 0x0A then ConnListen
      else if v = 0x0B then ConnClosing
      else ''UNKNOWN_'' @ Sprintf_02X v)"

record ProcNetParser =
  serial :: string
  nextID :: "64 word"

definition NewProcNetParser :: "string \<Rightarrow> ProcNetParser" where
  "NewProcNetParser s = \<lparr>serial = s, nextID = 0\<rparr>"

text \<open>\<open>parseLine\<close> returns the connection (\<open>None\<close> for \<open>nil\<close>) and the parser.\<close>

definition parseLine ::
  "ProcNetParser \<Rightarrow> string \<Rightarrow> Protocol \<Rightarrow> time \<Rightarrow> Connection option \<times> ProcNetParser" where
  "parseLine p line proto now =
     (let fields = Fields line in
      if length fields < 10 then (None, p)
      else
        let localAddr = fields ! 1; remoteAddr = fields ! 2;
            stateHex = fields ! 3; uidStr = fields ! 7
        in case parseHexAddr localAddr of
             Inl e \<Rightarrow> (None, p)
           | Inr (localIP, localPort) \<Rightarrow>
               (case parseHexAddr remoteAddr of
                  Inl e \<Rightarrow> (None, p)
                | Inr (remoteIP, remotePort) \<Rightarrow>
                    (let state = parseConnState stateHex;
                         uid = fst (Atoi uidStr)
                     in if localIP = ''127.0.0.1'' \<and> remoteIP = ''127.0.0.1'' then (None, p)
                        else if remoteIP = ''0.0.0.0'' \<and> state = ConnListen then (None, p)
                        else
                          (let p' = p\<lparr>nextID := nextID p + 1\<rparr>
                           in (Some \<lparr>ConnID = serial p' @ ''-conn-'' @ decstr (uint (nextID p')),
                                     ConnSerial = serial p', LocalIP = localIP,
                                     LocalPort = localPort, RemoteIP = remoteIP,
                                     RemotePort = remotePort, State = state,
                                     ConnProtocol = proto, UID = uid,
                                     FirstSeen = now, LastSeen = now\<rparr>, p')))))"

text \<open>The loop of \<open>ParseProcNet\<close> over the lines; \<open>now\<close> is the value of \<open>time.Now()\<close>.\<close>

fun ParseProcNet_loop ::
  "ProcNetParser \<Rightarrow> string list \<Rightarrow> Protocol \<Rightarrow> time \<Rightarrow> Connection list
   \<Rightarrow> Connection list \<times> ProcNetParser" where
  "ParseProcNet_loop p [] proto now conns = (conns, p)"
| "ParseProcNet_loop p (l # ls) proto now conns =
     (let line = TrimSpace l in
      if line = [] \<or> HasPrefix line ''sl'' then ParseProcNet_loop p ls proto now conns
      else case parseLine p line proto now of
             (None, p') \<Rightarrow> ParseProcNet_loop p' ls proto now conns
           | (Some conn, p') \<Rightarrow> ParseProcNet_loop p' ls proto now (conns @ [conn]))"

definition ParseProcNet ::
  "ProcNetParser \<Rightarrow> string \<Rightarrow> Protocol \<Rightarrow> time \<Rightarrow> Connection list \<times> ProcNetParser" where
  "ParseProcNet p output proto now =
     ParseProcNet_loop p (Split output CHR 0x0A) proto now []"

text \<open>The three data rows of the parser's own test, and the table they form.\<close>

definition tcpRow0 :: string where
  "tcpRow0 = ''   0: 0100007F:13AD 00000000:0000 0A 00000000:00000000 00:00000000 00000000     0        0 12345 1 0000000000000000 100 0 0 10 0''"

definition tcpRow1 :: string where
  "tcpRow1 = ''   1: 0101A8C0:D4F2 220ED8AE:01BB 01 00000000:00000000 00:00000000 00000000  1000        0 54321 1 0000000000000000 100 0 0 10 0''"

definition tcpRow2 :: string where
  "tcpRow2 = ''   2: 0101A8C0:C350 4E46C8AC:0050 01 00000000:00000000 00:00000000 00000000  1000        0 54322 1 0000000000000000 100 0 0 10 0''"

definition tcpTable :: string where
  "tcpTable = tcpRow0 @ [CHR 0x0A] @ tcpRow1 @ [CHR 0x0A] @ tcpRow2"

text \<open>
  An address is a loopback address when it lies in 127.0.0.0/8, or is the IPv6 address
  \<open>::1\<close>, or is an IPv4 loopback address mapped into IPv6 (\<open>::ffff:127.x.y.z\<close>); read
  off the socket table's hexadecimal form, in which an IPv4 address ends in its first
  octet.
\<close>

definition isLoopbackHex :: "string \<Rightarrow> bool" where
  "isLoopbackHex h \<longleftrightarrow>
     (length h = 8 \<and> drop 6 h = ''7F'') \<or> h = ''00000000000000000000000001000000'' \<or>
     (length h = 32 \<and> take 24 h = ''0000000000000000FFFF0000'' \<and> drop 30 h = ''7F'')"

text \<open>Three rows whose local and remote addresses are both loopback addresses.\<close>

definition loopRow4 :: string where
  "loopRow4 = ''   0: 0200007F:1F90 0200007F:D431 01 00000000:00000000 00:00000000 00000000  1000        0 54321 1 0000000000000000 100 0 0 10 0''"

definition loopRow6 :: string where
  "loopRow6 = ''   0: 00000000000000000000000001000000:1F90 00000000000000000000000001000000:D431 01 00000000:00000000 00:00000000 00000000  1000        0 54321 1 0000000000000000 100 0 0 10 0''"

definition loopRowMapped :: string where
  "loopRowMapped = ''   0: 0000000000000000FFFF00000100007F:1F90 0000000000000000FFFF00000100007F:D431 01 00000000:00000000 00:00000000 00000000  1000        0 54321 1 0000000000000000 100 0 0 10 0''"

definition loopConn :: "string \<Rightarrow> Connection" where
  "loopConn ip =
     \<lparr>ConnID = ''device1-conn-1'', ConnSerial = ''device1'', LocalIP = ip,
      LocalPort = 8080, RemoteIP = ip, RemotePort = 54321,
      State = ConnEstablished, ConnProtocol = ProtoTCP, UID = 1000,
      FirstSeen = 0, LastSeen = 0\<rparr>"

definition tcpHeader :: string where
  "tcpHeader = ''  sl  local_address rem_address   st tx_queue rx_queue tr tm->when retrnsmt   uid  timeout inode''"

text \<open>The hexadecimal local and remote address of a table row, without the port.\<close>

definition localHex :: "string \<Rightarrow> string" where
  "localHex line = hd (SplitN2 (Fields line ! 1) CHR '':'')"

definition remoteHex :: "string \<Rightarrow> string" where
  "remoteHex line = hd (SplitN2 (Fields line ! 2) CHR '':'')"

text \<open>The two connections the test table yields, seen at time \<open>now\<close>.\<close>

definition tcpConn1 :: "time \<Rightarrow> Connection" where
  "tcpConn1 now =
     \<lparr>ConnID = ''device1-conn-1'', ConnSerial = ''device1'', LocalIP = ''192.168.1.1'',
      LocalPort = 54514, RemoteIP = ''174.216.14.34'', RemotePort = 443,
      State = ConnEstablished, ConnProtocol = ProtoTCP, UID = 1000,
      FirstSeen = now, LastSeen = now\<rparr>"

definition tcpConn2 :: "time \<Rightarrow> Connection" where
  "tcpConn2 now =
     \<lparr>ConnID = ''device1-conn-2'', ConnSerial = ''device1'', LocalIP = ''192.168.1.1'',
      LocalPort = 50000, RemoteIP = ''172.200.70.78'', RemotePort = 80,
      State = ConnEstablished, ConnProtocol = ProtoTCP, UID = 1000,
      FirstSeen = now, LastSeen = now\<rparr>"

section \<open>Hostname resolver (package capture, resolver.go)\<close>

text \<open>
  A \<open>net.IP\<close> is a byte slice of length 4 or 16, a \<open>net.IPNet\<close> a network number with
  its mask. \<open>To4\<close> and \<open>Contains\<close> are those of Go's package net.
\<close>

type_synonym IP = "8 word list"

definition v4InV6Prefix :: IP where
  "v4InV6Prefix = [0, 0, 0, 0, 0, 0, 0, 0, 0, 0, 0xff, 0xff]"

definition To4 :: "IP \<Rightarrow> IP option" where
  "To4 ip =
     (if length ip = 4 then Some ip
      else if length ip = 16 \<and> take 10 ip = replicate 10 0 \<and> ip ! 10 = 0xff \<and> ip ! 11 = 0xff
        then Some (drop 12 ip)
      else None)"

definition Contains :: "IP \<times> IP \<Rightarrow> IP \<Rightarrow> bool" where
  "Contains n ip0 =
     (let nn = fst n; m = snd n;
          ip = (case To4 ip0 of Some x \<Rightarrow> x | None \<Rightarrow> ip0);
          l = length ip
      in if l \<noteq> length nn then False
         else list_all (\<lambda>i. (nn ! i) AND (m ! i) = (ip ! i) AND (m ! i)) [0..<l])"

text \<open>
  The list \<open>privateRanges\<close> of \<open>isPrivateIP\<close>, each entry as \<open>net.ParseCIDR\<close> parses it:
  10.0.0.0/8, 172.16.0.0/12, 192.168.0.0/16, 127.0.0.0/8, 169.254.0.0/16, ::1/128,
  fe80::/10, fc00::/7.
\<close>

definition privateRanges :: "(IP \<times> IP) list" where
  "privateRanges =
     [([10, 0, 0, 0], [0xff, 0, 0, 0]),
      ([172, 16, 0, 0], [0xff, 0xf0, 0, 0]),
      ([192, 168, 0, 0], [0xff, 0xff, 0, 0]),
      ([127, 0, 0, 0], [0xff, 0, 0, 0]),
      ([169, 254, 0, 0], [0xff, 0xff, 0, 0]),
      ([0, 0, 0, 0, 0, 0, 0, 0, 0, 0, 0, 0, 0, 0, 0, 1], replicate 16 0xff),
      ([0xfe, 0x80, 0, 0, 0, 0, 0, 0, 0, 0, 0, 0, 0, 0, 0, 0], [0xff, 0xc0] @ replicate 14 0),
      ([0xfc, 0, 0, 0, 0, 0, 0, 0, 0, 0, 0, 0, 0, 0, 0, 0], [0xfe] @ replicate 15 0)]"

text \<open>
  \<open>isPrivateIP\<close>. \<open>net.ParseIP\<close> is a parameter: it returns \<open>None\<close> for \<open>nil\<close> and
  otherwise the address in its 16-byte form.
\<close>

definition isPrivateIP :: "(string \<Rightarrow> IP option) \<Rightarrow> string \<Rightarrow> bool" where
  "isPrivateIP ParseIP ip =
     (case ParseIP ip of
        None \<Rightarrow> False
      | Some parsed \<Rightarrow> list_ex (\<lambda>network. Contains network parsed) privateRanges)"

text \<open>
  The resolver's name cache, pending set and queue (a channel of capacity 256), and the
  snooper's \<open>ipMap\<close> (\<open>None\<close> when the resolver has no snooper).
\<close>

record Resolver =
  dnsCache :: "string \<rightharpoonup> string"
  dnsPend :: "string set"
  dnsQueue :: "string list"
  snooper :: "(string \<rightharpoonup> string) option"

text \<open>What a call touches, in the order of the statements that touch it.\<close>

datatype access =
    CacheRead string
  | SnooperLookupIP string
  | CacheWrite string string
  | PendRead string
  | PendAdd string
  | QueueSend string
  | QueueFull string

definition LookupIP :: "(string \<rightharpoonup> string) \<Rightarrow> string \<Rightarrow> string" where
  "LookupIP ipMap ip = (case ipMap ip of None \<Rightarrow> [] | Some h \<Rightarrow> h)"

text \<open>The tail of \<open>ResolveHostname\<close>: queue the address unless it is pending.\<close>

definition queueResolve :: "Resolver \<Rightarrow> string \<Rightarrow> access list \<Rightarrow> string \<times> Resolver \<times> access list" where
  "queueResolve r ip tr =
     (if ip \<notin> dnsPend r then
        (if length (dnsQueue r) < 256
         then ([], r\<lparr>dnsPend := insert ip (dnsPend r), dnsQueue := dnsQueue r @ [ip]\<rparr>,
               tr @ [PendRead ip, PendAdd ip, QueueSend ip])
         else ([], r\<lparr>dnsPend := insert ip (dnsPend r)\<rparr>,
               tr @ [PendRead ip, PendAdd ip, QueueFull ip]))
      else ([], r, tr @ [PendRead ip]))"

definition ResolveHostname ::
  "(string \<Rightarrow> IP option) \<Rightarrow> Resolver \<Rightarrow> string \<Rightarrow> string \<times> Resolver \<times> access list" where
  "ResolveHostname ParseIP r ip =
     (if ip = [] \<or> ip = ''0.0.0.0'' \<or> ip = ''::'' then ([], r, [])
      else if isPrivateIP ParseIP ip then ([], r, [])
      else case dnsCache r ip of
             Some host \<Rightarrow> (host, r, [CacheRead ip])
           | None \<Rightarrow>
               (case snooper r of
                  None \<Rightarrow> queueResolve r ip [CacheRead ip]
                | Some ipMap \<Rightarrow>
                    (let snoopHost = LookupIP ipMap ip in
                     if snoopHost \<noteq> []
                     then (snoopHost, r\<lparr>dnsCache := (dnsCache r)(ip \<mapsto> snoopHost)\<rparr>,
                           [CacheRead ip, SnooperLookupIP ip, CacheWrite ip snoopHost])
                     else queueResolve r ip [CacheRead ip, SnooperLookupIP ip])))"

text \<open>
  The private and reserved ranges as address ranges. An address is the number its bytes
  spell, most significant byte first; it lies in \<open>base/len\<close> when its leading \<open>len\<close> bits
  are those of \<open>base\<close>. A 16-byte address with the prefix \<open>::ffff:0:0/96\<close> is the IPv4
  address in its last four bytes.
\<close>

fun valBE :: "IP \<Rightarrow> nat" where
  "valBE [] = 0"
| "valBE (b # bs) = unat b * 256 ^ length bs + valBE bs"

definition inCIDR :: "nat \<Rightarrow> nat \<Rightarrow> nat \<Rightarrow> nat \<Rightarrow> bool" where
  "inCIDR bits base len v \<longleftrightarrow> v div 2 ^ (bits - len) = base div 2 ^ (bits - len)"

definition privateV4 :: "nat \<Rightarrow> bool" where
  "privateV4 v \<longleftrightarrow>
     inCIDR 32 0x0A000000 8 v \<or> inCIDR 32 0xAC100000 12 v \<or> inCIDR 32 0xC0A80000 16 v \<or>
     inCIDR 32 0x7F000000 8 v \<or> inCIDR 32 0xA9FE0000 16 v"

definition privateV6 :: "nat \<Rightarrow> bool" where
  "privateV6 v \<longleftrightarrow>
     inCIDR 128 1 128 v \<or> inCIDR 128 (0xfe80 * 2 ^ 112) 10 v \<or> inCIDR 128 (0xfc00 * 2 ^ 112) 7 v"

definition inPrivateRange :: "IP \<Rightarrow> bool" where
  "inPrivateRange ip \<longleftrightarrow>
     (take 12 ip = v4InV6Prefix \<and> privateV4 (valBE (drop 12 ip))) \<or> privateV6 (valBE ip)"

text \<open>
  Sample addresses in the 16-byte form that \<open>net.ParseIP\<close> returns, and a resolver whose
  caches know a name for each of them.
\<close>

definition ip4 :: "8 word \<Rightarrow> 8 word \<Rightarrow> 8 word \<Rightarrow> 8 word \<Rightarrow> IP" where
  "ip4 a b c d = v4InV6Prefix @ [a, b, c, d]"

definition sampleParseIP :: "string \<Rightarrow> IP option" where
  "sampleParseIP s =
     (if s = ''192.168.1.1'' then Some (ip4 192 168 1 1)
      else if s = ''172.31.255.254'' then Some (ip4 172 31 255 254)
      else if s = ''fe80::1'' then Some [0xfe, 0x80, 0, 0, 0, 0, 0, 0, 0, 0, 0, 0, 0, 0, 0, 1]
      else if s = ''8.8.8.8'' then Some (ip4 8 8 8 8)
      else None)"

definition sampleResolver :: Resolver where
  "sampleResolver =
     \<lparr>dnsCache = [''192.168.1.1'' \<mapsto> ''router.lan''], dnsPend = {}, dnsQueue = [],
      snooper = Some [''fe80::1'' \<mapsto> ''printer.local'']\<rparr>"

section \<open>Ring store: packets\<close>

lemma smod_nonneg: "0 \<le> a \<Longrightarrow> 0 < b \<Longrightarrow> a smod b = a mod (b::int)"
  by (simp add: signed_modulo_int_def sgn_if)

lemma wrap64_id: "- (2 ^ 63) \<le> x \<Longrightarrow> x < 2 ^ 63 \<Longrightarrow> wrap64 x = x"
  by (simp add: wrap64_def)

lemma ringSlot_nonneg:
  assumes "0 \<le> h" "0 < c"
  shows "ringSlot h c (nat c) = Some (nat (h mod c))"
proof -
  have "h smod c = h mod c" using assms by (rule smod_nonneg)
  moreover have "0 \<le> h mod c" "h mod c < c" using assms by simp_all
  ultimately show ?thesis using assms by (simp add: ringSlot_def Let_def)
qed

lemma AddPacket_wf:
  assumes wf: "wfP s c" and hd: "pktHead s + 1 < 2 ^ 63"
  shows "AddPacket s p =
           Some (s\<lparr>packets := (packets s)[nat (pktHead s mod c) := p],
                   pktHead := pktHead s + 1,
                   pktCount := min (pktCount s + 1) c\<rparr>, onChange s)"
proof -
  have f: "0 < c" "c < 2 ^ 63" "pktMaxSize s = c" "length (packets s) = nat c"
          "0 \<le> pktHead s" "0 \<le> pktCount s" "pktCount s \<le> c"
    using wf by (simp_all add: wfP_def)
  have slot: "ringSlot (pktHead s) (pktMaxSize s) (length (packets s))
              = Some (nat (pktHead s mod c))"
    using ringSlot_nonneg[OF f(5) f(1)] f(3,4) by simp
  have w1: "wrap64 (pktHead s + 1) = pktHead s + 1"
    using f(5) hd by (intro wrap64_id) simp_all
  have cnt: "(if pktCount s < pktMaxSize s then wrap64 (pktCount s + 1) else pktCount s)
             = min (pktCount s + 1) c"
  proof (cases "pktCount s < c")
    case True
    then have "wrap64 (pktCount s + 1) = pktCount s + 1"
      using f(2,6) by (intro wrap64_id) linarith+
    then show ?thesis using True f(3) by (simp add: min_def)
  next
    case False
    then show ?thesis using f(3,7) by (simp add: min_def)
  qed
  show ?thesis unfolding AddPacket_def slot cnt w1 by (simp add: Let_def)
qed

lemma AddPacket_wfP:
  assumes wf: "wfP s c" and hd: "pktHead s + 1 < 2 ^ 63"
    and r: "AddPacket s p = Some (s', cb)"
  shows "wfP s' c"
  using wf r unfolding AddPacket_wf[OF wf hd] by (auto simp add: wfP_def)

lemma AddPackets_snoc:
  "AddPackets s (ps @ [p]) =
     (case AddPackets s ps of None \<Rightarrow> None | Some s' \<Rightarrow> map_option fst (AddPacket s' p))"
  by (induction ps arbitrary: s) (auto split: option.splits)

lemma AddPackets_wf:
  assumes wf: "wfP s c" and hd: "pktHead s + int (length ps) < 2 ^ 63"
  shows "\<exists>s'. AddPackets s ps = Some s' \<and> wfP s' c
           \<and> pktHead s' = pktHead s + int (length ps)
           \<and> pktCount s' = min (pktCount s + int (length ps)) c
           \<and> (\<forall>j < length ps. int (length ps) - int j \<le> c \<longrightarrow>
                  packets s' ! nat ((pktHead s + int j) mod c) = ps ! j)"
  using hd
proof (induction ps rule: rev_induct)
  case Nil
  have "pktCount s \<le> c" using wf by (simp add: wfP_def)
  then show ?case using wf by simp
next
  case (snoc p ps)
  have hd': "pktHead s + int (length ps) < 2 ^ 63" using snoc.prems by simp
  obtain s' where s': "AddPackets s ps = Some s'" "wfP s' c"
      "pktHead s' = pktHead s + int (length ps)"
      "pktCount s' = min (pktCount s + int (length ps)) c"
      "\<forall>j < length ps. int (length ps) - int j \<le> c \<longrightarrow>
          packets s' ! nat ((pktHead s + int j) mod c) = ps ! j"
    using snoc.IH[OF hd'] by blast
  have f: "0 < c" "length (packets s') = nat c" "0 \<le> pktHead s"
    using s'(2) wf by (simp_all add: wfP_def)
  have h1: "pktHead s' + 1 < 2 ^ 63" using s'(3) snoc.prems by simp
  let ?s'' = "s'\<lparr>packets := (packets s')[nat (pktHead s' mod c) := p],
                   pktHead := pktHead s' + 1,
                   pktCount := min (pktCount s' + 1) c\<rparr>"
  have ap: "AddPacket s' p = Some (?s'', onChange s')" by (rule AddPacket_wf[OF s'(2) h1])
  have 1: "AddPackets s (ps @ [p]) = Some ?s''" by (simp add: AddPackets_snoc s'(1) ap)
  have 2: "wfP ?s'' c" by (rule AddPacket_wfP[OF s'(2) h1 ap])
  have 3: "pktHead ?s'' = pktHead s + int (length (ps @ [p]))" using s'(3) by simp
  have 4: "pktCount ?s'' = min (pktCount s + int (length (ps @ [p]))) c"
    using s'(4) by (simp add: min_def)
  have bound: "nat ((pktHead s + int (length ps)) mod c) < length (packets s')"
    using f by simp
  have 5: "packets ?s'' ! nat ((pktHead s + int j) mod c) = (ps @ [p]) ! j"
    if j: "j < length (ps @ [p])" "int (length (ps @ [p])) - int j \<le> c" for j
  proof (cases "j = length ps")
    case True
    then show ?thesis using bound s'(3) by simp
  next
    case False
    then have jl: "j < length ps" using j(1) by simp
    have d: "0 < int (length ps) - int j" "int (length ps) - int j < c"
      using jl j(2) by simp_all
    have ne: "(pktHead s + int j) mod c \<noteq> (pktHead s + int (length ps)) mod c"
    proof
      assume "(pktHead s + int j) mod c = (pktHead s + int (length ps)) mod c"
      then have "c dvd ((pktHead s + int (length ps)) - (pktHead s + int j))"
        by (metis mod_eq_dvd_iff)
      then have "c dvd (int (length ps) - int j)" by simp
      then show False using d zdvd_not_zless by blast
    qed
    have nn: "0 \<le> (pktHead s + int j) mod c" "0 \<le> (pktHead s + int (length ps)) mod c"
      using f by simp_all
    have ne': "nat ((pktHead s + int (length ps)) mod c) \<noteq> nat ((pktHead s + int j) mod c)"
      using ne nn by (simp add: nat_eq_iff)
    have "packets ?s'' ! nat ((pktHead s + int j) mod c)
          = packets s' ! nat ((pktHead s + int j) mod c)"
      using ne' s'(3) by simp
    also have "\<dots> = ps ! j" using s'(5) jl d by simp
    finally show ?thesis using jl by (simp add: nth_append)
  qed
  show ?case using 1 2 3 4 5 by blast
qed

lemma those_map_Some:
  "(\<And>x. x \<in> set xs \<Longrightarrow> f x = Some (g x)) \<Longrightarrow> those (map f xs) = Some (map g xs)"
  by (induction xs) simp_all

lemma GetRecentPackets_wf:
  assumes wf: "wfP s c" and hd: "pktHead s + int (length ps) < 2 ^ 63"
    and r: "AddPackets s ps = Some s'"
    and n: "0 \<le> n" "n \<le> int (length ps)" "n \<le> c"
  shows "GetRecentPackets s' n = Some (take (nat n) (rev ps))"
proof -
  let ?k = "length ps"
  obtain t where t: "AddPackets s ps = Some t" "wfP t c"
      "pktHead t = pktHead s + int ?k"
      "pktCount t = min (pktCount s + int ?k) c"
      "\<forall>j < ?k. int ?k - int j \<le> c \<longrightarrow> packets t ! nat ((pktHead s + int j) mod c) = ps ! j"
    using AddPackets_wf[OF wf hd] by blast
  have ts: "t = s'" using t(1) r by simp
  have f: "0 < c" "pktMaxSize s' = c" "length (packets s') = nat c" "0 \<le> pktHead s"
          "0 \<le> pktCount s"
    using t(2) wf ts by (simp_all add: wfP_def)
  have hs: "pktHead s' = pktHead s + int ?k" using t(3) ts by simp
  have nle: "\<not> n > pktCount s'" using t(4) ts n f(5) by simp
  show ?thesis
  proof (cases "n = 0")
    case True
    then show ?thesis using nle by (simp add: GetRecentPackets_def)
  next
    case False
    then have npos: "0 < n" using n(1) by simp
    have elt: "map_option (\<lambda>idx. packets s' ! idx)
                 (recentSlot (pktHead s') (pktMaxSize s') (length (packets s')) i)
               = Some (rev ps ! i)" if "i \<in> set [0..<nat n]" for i
    proof -
      have i: "i < nat n" using that by simp
      have ik: "i < ?k" using i n(2) by linarith
      let ?j = "?k - 1 - i"
      have j: "?j < ?k" "int ?k - int ?j \<le> c" using ik i n(3) by linarith+
      have e: "pktHead s' - 1 - int i = pktHead s + int ?j" using hs ik by simp
      have nn: "0 \<le> pktHead s + int ?j" using f(4) by simp
      have lt: "pktHead s + int ?j < 2 ^ 63" using hd j(1) by linarith
      have w1: "wrap64 (pktHead s' - 1) = pktHead s' - 1"
        using hs f(4) hd ik by (intro wrap64_id) linarith+
      have w2: "wrap64 (pktHead s' - 1 - int i) = pktHead s + int ?j"
        unfolding e using nn lt by (intro wrap64_id) linarith+
      have rs: "recentSlot (pktHead s') (pktMaxSize s') (length (packets s')) i
                = Some (nat ((pktHead s + int ?j) mod c))"
        unfolding recentSlot_def w1 w2 Let_def f(2,3)
        using nn ringSlot_nonneg[OF nn f(1)] by simp
      have "packets s' ! nat ((pktHead s + int ?j) mod c) = ps ! ?j"
        using t(5) j ts by simp
      moreover have "rev ps ! i = ps ! ?j" using ik by (simp add: rev_nth)
      ultimately show ?thesis by (simp add: rs)
    qed
    have "those (map (\<lambda>i. map_option (\<lambda>idx. packets s' ! idx)
                 (recentSlot (pktHead s') (pktMaxSize s') (length (packets s')) i)) [0..<nat n])
          = Some (map (\<lambda>i. rev ps ! i) [0..<nat n])"
      by (rule those_map_Some) (rule elt)
    moreover have "map (\<lambda>i. rev ps ! i) [0..<nat n] = take (nat n) (rev ps)"
      using n(2) by (intro nth_equalityI) simp_all
    ultimately show ?thesis using nle False npos by (simp add: GetRecentPackets_def)
  qed
qed

lemma wfP_New:
  "0 < c \<Longrightarrow> c < 2 ^ 63 \<Longrightarrow> wfP (New \<lparr>MaxPackets = c, MaxConnections = m\<rparr>) c"
  by (simp add: wfP_def New_def Let_def)

text \<open>
  C4. With capacity \<open>c > 0\<close>, \<open>k > c\<close> packet inserts into a new store (fewer than \<open>2^63\<close>,
  the range of the head index) all succeed; afterwards the packet count is \<open>c\<close>; after
  the first \<open>j\<close> inserts it is \<open>min j c\<close> (it grows up to the capacity and stays there);
  \<open>GetRecentPackets c\<close> returns the last \<open>c\<close> inserted packets, newest first: its first
  element is the last inserted packet and its last element is packet number \<open>k - c\<close>.
\<close>

theorem ring_bound:
  fixes ps :: "NetworkPacket list" and c m :: int
  defines "s0 \<equiv> (New \<lparr>MaxPackets = c, MaxConnections = m\<rparr> :: unit Store)"
  assumes cpos: "0 < c" and big: "c < int (length ps)" and fit: "int (length ps) < 2 ^ 63"
  shows "\<exists>s. AddPackets s0 ps = Some s
       \<and> PacketCount s = c
       \<and> (\<forall>j \<le> length ps. \<exists>sj. AddPackets s0 (take j ps) = Some sj
              \<and> PacketCount sj = min (int j) c)
       \<and> GetRecentPackets s c = Some (take (nat c) (rev ps))
       \<and> take (nat c) (rev ps) ! 0 = last ps
       \<and> take (nat c) (rev ps) ! (nat c - 1) = ps ! (length ps - nat c)"
proof -
  have c63: "c < 2 ^ 63" using big fit by linarith
  have wf: "wfP s0 c" unfolding s0_def using cpos c63 by (rule wfP_New)
  have c0: "pktCount s0 = 0" "pktHead s0 = 0"
    using cpos by (simp_all add: s0_def New_def Let_def)
  have run: "\<exists>t. AddPackets s0 qs = Some t \<and> PacketCount t = min (int (length qs)) c"
    if "int (length qs) < 2 ^ 63" for qs
    using AddPackets_wf[OF wf, of qs] that c0 by (auto simp add: PacketCount_def)
  obtain s where s: "AddPackets s0 ps = Some s" "PacketCount s = min (int (length ps)) c"
    using run[OF fit] by blast
  have 1: "PacketCount s = c" using s(2) big by simp
  have 2: "\<forall>j \<le> length ps. \<exists>sj. AddPackets s0 (take j ps) = Some sj
              \<and> PacketCount sj = min (int j) c"
  proof (intro allI impI)
    fix j assume j: "j \<le> length ps"
    have l: "length (take j ps) = j" using j by simp
    have "int (length (take j ps)) < 2 ^ 63" using j fit l by linarith
    from run[OF this] show "\<exists>sj. AddPackets s0 (take j ps) = Some sj
              \<and> PacketCount sj = min (int j) c"
      by (simp only: l)
  qed
  have 3: "GetRecentPackets s c = Some (take (nat c) (rev ps))"
    using GetRecentPackets_wf[OF wf _ s(1), of c] c0 cpos big fit by simp
  have ne: "ps \<noteq> []" using cpos big by auto
  have 4: "take (nat c) (rev ps) ! 0 = last ps"
    using cpos ne by (simp add: hd_rev hd_conv_nth[symmetric])
  have lt: "nat c - 1 < length ps" "nat c - 1 < nat c" using cpos big by linarith+
  have 5: "take (nat c) (rev ps) ! (nat c - 1) = ps ! (length ps - nat c)"
    using lt cpos big by (simp add: rev_nth)
  show ?thesis using s(1) 1 2 3 4 5 by blast
qed

theorem ring_bound_witness:
  "(0::int) < 5 \<and> (5::int) < int (length (map testPkt [0,1,2,3,4,5,6,7,8,9]))
   \<and> int (length (map testPkt [0,1,2,3,4,5,6,7,8,9])) < 2 ^ 63
   \<and> (\<exists>s. AddPackets (New \<lparr>MaxPackets = 5, MaxConnections = 5\<rparr> :: unit Store)
              (map testPkt [0,1,2,3,4,5,6,7,8,9]) = Some s
          \<and> PacketCount s = 5
          \<and> GetRecentPackets s 5
             = Some [testPkt 9, testPkt 8, testPkt 7, testPkt 6, testPkt 5])"
proof -
  have a: "(0::int) < 5" by simp
  have b: "(5::int) < int (length (map testPkt [0,1,2,3,4,5,6,7,8,9]))" by simp
  have c: "int (length (map testPkt [0,1,2,3,4,5,6,7,8,9])) < 2 ^ 63" by simp
  have r: "take (nat 5) (rev (map testPkt [0,1,2,3,4,5,6,7,8,9]))
           = [testPkt 9, testPkt 8, testPkt 7, testPkt 6, testPkt 5]" by simp
  obtain s where "AddPackets (New \<lparr>MaxPackets = 5, MaxConnections = 5\<rparr> :: unit Store)
              (map testPkt [0,1,2,3,4,5,6,7,8,9]) = Some s"
      "PacketCount s = 5"
      "GetRecentPackets s 5 = Some (take (nat 5) (rev (map testPkt [0,1,2,3,4,5,6,7,8,9])))"
    using ring_bound [of 5 "map testPkt [0,1,2,3,4,5,6,7,8,9]" 5, OF a b c] by blast
  then have "\<exists>s. AddPackets (New \<lparr>MaxPackets = 5, MaxConnections = 5\<rparr> :: unit Store)
              (map testPkt [0,1,2,3,4,5,6,7,8,9]) = Some s
          \<and> PacketCount s = 5
          \<and> GetRecentPackets s 5
             = Some [testPkt 9, testPkt 8, testPkt 7, testPkt 6, testPkt 5]"
    unfolding r by blast
  then show ?thesis using a b c by blast
qed

section \<open>Ring store: connections\<close>

lemma connKey_cong:
  "LocalIP c1 = LocalIP c2 \<Longrightarrow> LocalPort c1 = LocalPort c2 \<Longrightarrow> RemoteIP c1 = RemoteIP c2 \<Longrightarrow>
   RemotePort c1 = RemotePort c2 \<Longrightarrow> connKey c1 = connKey c2"
  by (simp add: connKey_def)

lemma New_conn_fields:
  "connMaxSize (New cfg :: 'cb Store) > 0"
  "length (connections (New cfg :: 'cb Store)) = nat (connMaxSize (New cfg :: 'cb Store))"
  "connHead (New cfg :: 'cb Store) = 0" "connCount (New cfg :: 'cb Store) = 0"
  "connMap (New cfg :: 'cb Store) = Map.empty"
  "onChange (New cfg :: 'cb Store) = None"
  by (simp_all add: New_def Let_def DefaultMaxConns_def)

lemma ringSlot_0: "0 < c \<Longrightarrow> ringSlot 0 c (nat c) = Some 0"
  using ringSlot_nonneg[of 0 c] by simp

lemma AddConnection_fresh:
  fixes s0 :: "'cb Store"
  assumes "connMaxSize s0 > 0" "length (connections s0) = nat (connMaxSize s0)"
    "connHead s0 = 0" "connCount s0 = 0" "connMap s0 = Map.empty"
  shows "AddConnection s0 c1 =
     Some (s0\<lparr>connections := (connections s0)[0 := c1],
              connMap := [connKey c1 \<mapsto> 0], connHead := 1, connCount := 1\<rparr>, onChange s0)"
proof -
  have sl: "ringSlot (connHead s0) (connMaxSize s0) (length (connections s0)) = Some 0"
    using assms(1,2,3) ringSlot_0[of "connMaxSize s0"] by simp
  have w: "wrap64 (0 + 1) = 1" by (simp add: wrap64_def)
  show ?thesis
    unfolding AddConnection_def Let_def using assms(1,3,4,5) sl w by simp
qed

text \<open>
  C5. Inserting two connections with the same local and remote address and port into a
  new store: both inserts succeed, the connection count is 1 afterwards, the second
  insert does not advance the ring head and invokes no callback, and the stored entry is
  the first connection with the \<open>State\<close> and \<open>LastSeen\<close> of the second.
\<close>

theorem conn_dedup:
  fixes cfg :: Config and c1 c2 :: Connection
  defines "s0 \<equiv> (New cfg :: unit Store)"
  defines "s1 \<equiv> s0\<lparr>connections := (connections s0)[0 := c1],
                     connMap := [connKey c1 \<mapsto> 0], connHead := 1, connCount := 1\<rparr>"
  defines "s2 \<equiv> s1\<lparr>connections := (connections s1)
                       [0 := c1\<lparr>State := State c2, LastSeen := LastSeen c2\<rparr>]\<rparr>"
  assumes same: "LocalIP c1 = LocalIP c2" "LocalPort c1 = LocalPort c2"
                "RemoteIP c1 = RemoteIP c2" "RemotePort c1 = RemotePort c2"
  shows "AddConnection s0 c1 = Some (s1, None)
       \<and> AddConnection s1 c2 = Some (s2, None)
       \<and> ConnectionCount s2 = 1
       \<and> connHead s2 = connHead s1
       \<and> GetRecentConnections s2 1 = Some [c1\<lparr>State := State c2, LastSeen := LastSeen c2\<rparr>]
       \<and> LastSeen (connections s2 ! 0) = LastSeen c2
       \<and> State (connections s2 ! 0) = State c2"
proof -
  have k: "connKey c2 = connKey c1" by (simp add: connKey_def same)
  have f: "connMaxSize s0 > 0" "length (connections s0) = nat (connMaxSize s0)"
          "connHead s0 = 0" "connCount s0 = 0" "connMap s0 = Map.empty" "onChange s0 = None"
    unfolding s0_def by (rule New_conn_fields)+
  have pos: "0 < length (connections s0)" using f by simp
  have a1: "AddConnection s0 c1 = Some (s1, None)"
    using AddConnection_fresh[OF f(1-5), of c1] f(6) by (simp add: s1_def)
  have a2: "AddConnection s1 c2 = Some (s2, None)"
    using pos by (simp add: AddConnection_def k s1_def s2_def)
  have m: "connMaxSize s2 = connMaxSize s0" "connHead s2 = 1" "connCount s2 = 1"
          "length (connections s2) = nat (connMaxSize s0)"
    using f(2) by (simp_all add: s2_def s1_def)
  have e: "connections s2 ! 0 = c1\<lparr>State := State c2, LastSeen := LastSeen c2\<rparr>"
    using pos by (simp add: s2_def s1_def)
  have w: "wrap64 (1 - 1) = 0" "wrap64 (0 - 0) = 0" by (simp_all add: wrap64_def)
  have rs: "recentSlot (connHead s2) (connMaxSize s2) (length (connections s2)) 0 = Some 0"
    unfolding recentSlot_def m Let_def using w ringSlot_0[OF f(1)] by simp
  have g: "GetRecentConnections s2 1 = Some [connections s2 ! 0]"
    by (simp add: GetRecentConnections_def m(3) rs)
  show ?thesis using a1 a2 m e g by (simp add: ConnectionCount_def s1_def)
qed

theorem conn_dedup_witness:
  defines "s0 \<equiv> (New \<lparr>MaxPackets = 100, MaxConnections = 100\<rparr> :: unit Store)"
  defines "c1 \<equiv> testConn ''c1'' ''dev1'' ConnSynSent 10"
  defines "c2 \<equiv> testConn ''c2'' ''dev1'' ConnEstablished 20"
  defines "s1 \<equiv> s0\<lparr>connections := (connections s0)[0 := c1],
                     connMap := [connKey c1 \<mapsto> 0], connHead := 1, connCount := 1\<rparr>"
  defines "s2 \<equiv> s1\<lparr>connections := (connections s1)
                       [0 := c1\<lparr>State := State c2, LastSeen := LastSeen c2\<rparr>]\<rparr>"
  shows "LocalIP c1 = LocalIP c2 \<and> LocalPort c1 = LocalPort c2
       \<and> RemoteIP c1 = RemoteIP c2 \<and> RemotePort c1 = RemotePort c2
       \<and> AddConnection s0 c1 = Some (s1, None)
       \<and> AddConnection s1 c2 = Some (s2, None)
       \<and> ConnectionCount s2 = 1
       \<and> GetRecentConnections s2 1 = Some [c1\<lparr>State := State c2, LastSeen := LastSeen c2\<rparr>]
       \<and> LastSeen (connections s2 ! 0) = LastSeen c2 \<and> LastSeen c2 = 20"
proof -
  have h: "LocalIP c1 = LocalIP c2" "LocalPort c1 = LocalPort c2"
          "RemoteIP c1 = RemoteIP c2" "RemotePort c1 = RemotePort c2"
    by (simp_all add: c1_def c2_def testConn_def)
  have l: "LastSeen c2 = 20" by (simp add: c2_def testConn_def)
  show ?thesis
    using conn_dedup [of c1 c2 "\<lparr>MaxPackets = 100, MaxConnections = 100\<rparr>", OF h] h l
    unfolding s0_def[symmetric] s1_def[symmetric] s2_def[symmetric]
    by blast
qed

lemma recentSlot_eval:
  "recentSlot 1 5 5 0 = Some 0"
  "recentSlot 1 5 (Suc (Suc (Suc (Suc (Suc 0))))) 0 = Some 0"
  by (simp_all add: recentSlot_def ringSlot_def wrap64_def Let_def signed_modulo_int_def)

lemma ringSlot_eval:
  "ringSlot 0 5 5 = Some 0" "ringSlot 0 2 2 = Some 0" "ringSlot 1 2 2 = Some 1"
  "ringSlot 2 2 2 = Some 0"
  "ringSlot 0 5 (Suc (Suc (Suc (Suc (Suc 0))))) = Some 0"
  "ringSlot 0 2 (Suc (Suc 0)) = Some 0" "ringSlot 1 2 (Suc (Suc 0)) = Some (Suc 0)"
  "ringSlot 2 2 (Suc (Suc 0)) = Some 0"
  by (simp_all add: ringSlot_def Let_def signed_modulo_int_def)

lemma wrap64_eval: "wrap64 1 = 1" "wrap64 2 = 2" "wrap64 3 = 3"
  by (simp_all add: wrap64_def)

lemma store5_fields:
  "packets store5 = [zeroPacket, zeroPacket, zeroPacket, zeroPacket, zeroPacket]"
  "connections store5 = [zeroConnection, zeroConnection, zeroConnection, zeroConnection,
                         zeroConnection]"
  "pktHead store5 = 0" "pktCount store5 = 0" "pktMaxSize store5 = 5"
  "connHead store5 = 0" "connCount store5 = 0" "connMaxSize store5 = 5"
  "connMap store5 = Map.empty" "onChange store5 = None"
  by (simp_all add: store5_def New_def Let_def numeral_eq_Suc)

text \<open>
  C6. \<open>ClearDevice\<close> on a store holding one packet and one connection of \<open>dev1\<close>: the
  packet slot is zeroed and the index entry is removed, but the connection slot keeps the
  connection, which is still counted and still returned for \<open>dev1\<close>.
\<close>

theorem ClearDevice_keeps_connection:
  "AddPacket store5 (devPkt ''p1'' ''dev1'') = Some (store5P, None)
   \<and> AddConnection store5P (testConn ''c1'' ''dev1'' ConnEstablished 10)
       = Some (clearDeviceInput, None)
   \<and> packets (ClearDevice clearDeviceInput ''dev1'') ! 0 = zeroPacket
   \<and> connMap (ClearDevice clearDeviceInput ''dev1'')
        (connKey (testConn ''c1'' ''dev1'' ConnEstablished 10)) = None
   \<and> connections (ClearDevice clearDeviceInput ''dev1'') ! 0
        = testConn ''c1'' ''dev1'' ConnEstablished 10
   \<and> connections (ClearDevice clearDeviceInput ''dev1'') ! 0 \<noteq> zeroConnection
   \<and> ConnectionCount (ClearDevice clearDeviceInput ''dev1'') = 1
   \<and> GetConnectionsBySerial (ClearDevice clearDeviceInput ''dev1'') ''dev1'' 10
        = Some [testConn ''c1'' ''dev1'' ConnEstablished 10]"
proof -
  let ?c = "testConn ''c1'' ''dev1'' ConnEstablished 10"
  have ser: "ConnSerial ?c = ''dev1''" "PktSerial (devPkt ''p1'' ''dev1'') = ''dev1''"
    by (simp_all add: testConn_def devPkt_def)
  have nz: "?c \<noteq> zeroConnection" by (simp add: testConn_def zeroConnection_def)
  have 0: "AddPacket store5 (devPkt ''p1'' ''dev1'') = Some (store5P, None)"
    by (simp add: AddPacket_def store5_fields ringSlot_eval wrap64_eval store5P_def)
  have 1: "AddConnection store5P ?c = Some (clearDeviceInput, None)"
    by (simp add: AddConnection_def store5P_def store5_fields ringSlot_eval wrap64_eval
        clearDeviceInput_def)
  have 2: "packets (ClearDevice clearDeviceInput ''dev1'') ! 0 = zeroPacket"
    by (simp add: ClearDevice_def clearDeviceInput_def store5P_def ser)
  have 3: "connMap (ClearDevice clearDeviceInput ''dev1'') (connKey ?c) = None"
    by (simp add: ClearDevice_def clearDeviceInput_def ser)
  have 4: "connections (ClearDevice clearDeviceInput ''dev1'') ! 0 = ?c"
    by (simp add: ClearDevice_def clearDeviceInput_def)
  have 5: "ConnectionCount (ClearDevice clearDeviceInput ''dev1'') = 1"
    by (simp add: ClearDevice_def clearDeviceInput_def ConnectionCount_def)
  have f: "connHead (ClearDevice clearDeviceInput ''dev1'') = 1"
      "connMaxSize (ClearDevice clearDeviceInput ''dev1'') = 5"
      "connCount (ClearDevice clearDeviceInput ''dev1'') = 1"
      "length (connections (ClearDevice clearDeviceInput ''dev1'')) = 5"
    by (simp_all add: ClearDevice_def clearDeviceInput_def store5P_def store5_fields)
  have 6: "GetConnectionsBySerial (ClearDevice clearDeviceInput ''dev1'') ''dev1'' 10 = Some [?c]"
    unfolding GetConnectionsBySerial_def f using 4 ser(1)
    by (simp add: f recentSlot_eval)
  show ?thesis using 0 1 2 3 4 5 6 nz by simp
qed

lemma store2_fields:
  "connections store2 = [zeroConnection, zeroConnection]"
  "connHead store2 = 0" "connCount store2 = 0" "connMaxSize store2 = 2"
  "connMap store2 = Map.empty" "onChange store2 = None"
  by (simp_all add: store2_def New_def Let_def numeral_eq_Suc)

lemma ring_keys:
  "connKey connA2 = connKey connA" "connKey connB \<noteq> connKey connA"
  "connKey connC \<noteq> connKey connA" "connKey connC \<noteq> connKey connB"
  by (simp_all add: connKey_def connA_def connA2_def connB_def connC_def ringConn_def)

text \<open>
  C10. In a store of capacity 2, after the connections \<open>connA\<close>, \<open>connB\<close> and \<open>connC\<close>
  (three different keys) the slot of \<open>connA\<close> holds \<open>connC\<close>, and the index map still
  maps the key of \<open>connA\<close> to that slot. A further insert with the key of \<open>connA\<close>
  invokes no callback and leaves heads, counters and index map as they were, but the
  entry whose \<open>State\<close> and \<open>LastSeen\<close> it overwrites is \<open>connC\<close>, a connection with
  another key and of another device; no entry with the inserted key is stored.
\<close>

theorem stale_key_rewrites_other_entry:
  "AddConnection store2 connA = Some (store2A, None)
   \<and> AddConnection store2A connB = Some (store2AB, None)
   \<and> AddConnection store2AB connC = Some (store2ABC, None)
   \<and> connections store2ABC = [connC, connB]
   \<and> connMap store2ABC (connKey connA2) = Some 0
   \<and> connKey connA2 = connKey connA
   \<and> connKey connC \<noteq> connKey connA2
   \<and> AddConnection store2ABC connA2
       = Some (store2ABC\<lparr>connections := [connC\<lparr>State := ConnTimeWait, LastSeen := 40\<rparr>,
                                           connB]\<rparr>, None)
   \<and> connC\<lparr>State := ConnTimeWait, LastSeen := 40\<rparr> \<noteq> connC
   \<and> ConnSerial connC \<noteq> ConnSerial connA2"
proof -
  have 1: "AddConnection store2 connA = Some (store2A, None)"
    by (simp add: AddConnection_def store2_fields ringSlot_eval wrap64_eval store2A_def)
  have 2: "AddConnection store2A connB = Some (store2AB, None)"
    by (simp add: AddConnection_def store2A_def store2_fields ring_keys ringSlot_eval
        wrap64_eval store2AB_def)
  have 3: "AddConnection store2AB connC = Some (store2ABC, None)"
    by (simp add: AddConnection_def store2AB_def store2A_def store2_fields ring_keys
        ringSlot_eval wrap64_eval store2ABC_def)
  have 4: "connections store2ABC = [connC, connB]" by (simp add: store2ABC_def)
  have 5: "connMap store2ABC (connKey connA2) = Some 0"
    using ring_keys by (simp add: store2ABC_def)
  have 6: "AddConnection store2ABC connA2
       = Some (store2ABC\<lparr>connections := [connC\<lparr>State := ConnTimeWait, LastSeen := 40\<rparr>,
                                           connB]\<rparr>, None)"
    unfolding AddConnection_def Let_def 5 using 4
    by (simp add: connA2_def ringConn_def)
  have 7: "connC\<lparr>State := ConnTimeWait, LastSeen := 40\<rparr> \<noteq> connC"
    by (simp add: connC_def ringConn_def)
  have 8: "ConnSerial connC \<noteq> ConnSerial connA2"
    by (simp add: connC_def connA2_def ringConn_def)
  show ?thesis using 1 2 3 4 5 6 7 8 ring_keys by simp
qed

section \<open>Wire framing: encoding and decoding\<close>

lemma hexstr_lt16: "n < 16 \<Longrightarrow> hexstr n = [hexdigit n]"
  by (subst hexstr.simps) simp

lemma hexstr_ge16: "16 \<le> n \<Longrightarrow> hexstr n = hexstr (n div 16) @ [hexdigit (n mod 16)]"
  by (subst hexstr.simps) simp

lemma hexdigit_0: "hexdigit 0 = CHR ''0''"
  by (simp add: hexdigit_def)

lemma replicate_small:
  "replicate 3 c = [c, c, c]" "replicate 2 c = [c, c]" "replicate (Suc 0) c = [c]"
  by (simp_all add: numeral_3_eq_3 numeral_2_eq_2)

lemma Sprintf_04x_digits:
  assumes "n < 65536"
  shows "Sprintf_04x n = [hexdigit (n div 4096), hexdigit (n div 256 mod 16),
                          hexdigit (n div 16 mod 16), hexdigit (n mod 16)]"
proof -
  consider "n < 16" | "16 \<le> n" "n < 256" | "256 \<le> n" "n < 4096" | "4096 \<le> n" by linarith
  then show ?thesis
  proof cases
    case 1
    then show ?thesis
      by (simp add: Sprintf_04x_def hexstr_lt16 hexdigit_0 replicate_small)
  next
    case 2
    then have a: "n div 16 < 16" "n div 256 = 0" "n div 4096 = 0" by simp_all
    show ?thesis using 2 a
      by (simp add: Sprintf_04x_def hexstr_ge16 hexstr_lt16 hexdigit_0 replicate_small)
  next
    case 3
    then have a: "16 \<le> n" "16 \<le> n div 16" "n div 16 div 16 < 16" "n div 4096 = 0"
                 "n div 16 div 16 = n div 256" by (simp_all add: div_mult2_eq[symmetric])
    show ?thesis using a
      by (simp add: Sprintf_04x_def hexstr_ge16 hexstr_lt16 hexdigit_0 replicate_small)
  next
    case 4
    then have a: "16 \<le> n" "16 \<le> n div 16" "16 \<le> n div 16 div 16" "n div 16 div 16 div 16 < 16"
                 "n div 16 div 16 = n div 256" "n div 256 div 16 = n div 4096"
      using assms by (simp_all add: div_mult2_eq[symmetric])
    have b: "n div 4096 mod 16 = n div 4096" using assms by simp
    show ?thesis using a b
      by (simp add: Sprintf_04x_def hexstr_ge16 hexstr_lt16 hexdigit_0 replicate_small)
  qed
qed

lemma lt16_cases:
  "d < 16 \<Longrightarrow> d \<in> {0, 1, 2, 3, 4, 5, 6, 7, 8, 9, 10, 11, 12, 13, 14, 15::nat}"
  by (simp; arith)

lemma parseLength_digits:
  "parseLength (hexdigit 0 # cs) len = parseLength cs (push_bit 4 len OR 0)"
  "parseLength (hexdigit 1 # cs) len = parseLength cs (push_bit 4 len OR 1)"
  "parseLength (hexdigit 2 # cs) len = parseLength cs (push_bit 4 len OR 2)"
  "parseLength (hexdigit 3 # cs) len = parseLength cs (push_bit 4 len OR 3)"
  "parseLength (hexdigit 4 # cs) len = parseLength cs (push_bit 4 len OR 4)"
  "parseLength (hexdigit 5 # cs) len = parseLength cs (push_bit 4 len OR 5)"
  "parseLength (hexdigit 6 # cs) len = parseLength cs (push_bit 4 len OR 6)"
  "parseLength (hexdigit 7 # cs) len = parseLength cs (push_bit 4 len OR 7)"
  "parseLength (hexdigit 8 # cs) len = parseLength cs (push_bit 4 len OR 8)"
  "parseLength (hexdigit 9 # cs) len = parseLength cs (push_bit 4 len OR 9)"
  "parseLength (hexdigit 10 # cs) len = parseLength cs (push_bit 4 len OR 10)"
  "parseLength (hexdigit 11 # cs) len = parseLength cs (push_bit 4 len OR 11)"
  "parseLength (hexdigit 12 # cs) len = parseLength cs (push_bit 4 len OR 12)"
  "parseLength (hexdigit 13 # cs) len = parseLength cs (push_bit 4 len OR 13)"
  "parseLength (hexdigit 14 # cs) len = parseLength cs (push_bit 4 len OR 14)"
  "parseLength (hexdigit 15 # cs) len = parseLength cs (push_bit 4 len OR 15)"
  "parseLength (hexdigit (Suc 0) # cs) len = parseLength cs (push_bit 4 len OR 1)"
  by (simp_all add: hexdigit_def Let_def)

lemma parseLength_hexdigit:
  assumes "d < 16"
  shows "parseLength (hexdigit d # cs) len = parseLength cs (push_bit 4 len OR of_nat d)"
  using lt16_cases[OF assms]
  by (elim insertE emptyE) (simp_all add: parseLength_digits del: parseLength.simps)

lemma push4_or:
  fixes x :: "32 word"
  assumes "d < 16"
  shows "push_bit 4 x OR of_nat d = x * 16 + of_nat d"
proof -
  have "push_bit 4 x + of_nat d = push_bit 4 x OR (of_nat d :: 32 word)"
  proof (rule disjunctive_add)
    fix k
    show "\<not> bit (push_bit 4 x) k \<or> \<not> bit (of_nat d :: 32 word) k"
    proof (cases "k < 4")
      case True
      then show ?thesis by (simp add: bit_push_bit_iff)
    next
      case False
      have "4 \<le> k" using False by simp
      then have "(2::nat) ^ 4 \<le> 2 ^ k" by (rule power_increasing) simp
      then have "d < 2 ^ k" using assms by simp
      then have "\<not> bit d k" by (simp add: bit_iff_odd)
      then show ?thesis by (simp add: bit_of_nat_iff)
    qed
  qed
  then show ?thesis by (simp add: push_bit_eq_mult)
qed

lemma parseLength_Sprintf:
  assumes "n < 65536"
  shows "parseLength (Sprintf_04x n) 0 = Inr (of_nat n)"
proof -
  let ?d3 = "n div 4096" and ?d2 = "n div 256 mod 16" and ?d1 = "n div 16 mod 16"
    and ?d0 = "n mod 16"
  have d: "?d3 < 16" "?d2 < 16" "?d1 < 16" "?d0 < 16" using assms by simp_all
  have e1: "n div 16 * 16 + ?d0 = n" by (rule div_mult_mod_eq)
  have e2: "n div 256 * 16 + ?d1 = n div 16"
    using div_mult_mod_eq[of "n div 16" 16] by (simp add: div_mult2_eq[symmetric])
  have e3: "?d3 * 16 + ?d2 = n div 256"
    using div_mult_mod_eq[of "n div 256" 16] by (simp add: div_mult2_eq[symmetric])
  have m: "((?d3 * 16 + ?d2) * 16 + ?d1) * 16 + ?d0 = n"
    by (simp only: e3 e2 e1)
  have "parseLength (Sprintf_04x n) 0
        = Inr (((((0 :: 32 word) * 16 + of_nat ?d3) * 16 + of_nat ?d2) * 16 + of_nat ?d1) * 16
               + of_nat ?d0)"
    by (simp only: Sprintf_04x_digits[OF assms] parseLength_hexdigit[OF d(1)]
        parseLength_hexdigit[OF d(2)] parseLength_hexdigit[OF d(3)] parseLength_hexdigit[OF d(4)]
        push4_or[OF d(1)] push4_or[OF d(2)] push4_or[OF d(3)] push4_or[OF d(4)]
        parseLength.simps(1))
  also have "\<dots> = Inr (of_nat (((?d3 * 16 + ?d2) * 16 + ?d1) * 16 + ?d0))"
    by (simp only: of_nat_add of_nat_mult of_nat_numeral mult_zero_left add_0)
  also have "\<dots> = Inr (of_nat n)" by (simp only: m)
  finally show ?thesis .
qed

lemma of_char_word_nat:
  "((of_char c :: 8 word) \<le> of_char d) \<longleftrightarrow> ((of_char c :: nat) \<le> of_char d)"
proof -
  have u: "unat (of_char x :: 8 word) = (of_char x :: nat)" for x
  proof -
    have "(of_char x :: nat) < 256" by (rule nat_of_char_less_256)
    then have "unat (of_nat (of_char x :: nat) :: 8 word) = of_char x"
      by (simp add: unat_of_nat)
    then show ?thesis by (simp add: of_nat_of_char)
  qed
  show ?thesis by (simp add: word_le_nat_alt u)
qed

lemma digit_range:
  "(48 \<le> (of_char c :: nat) \<and> (of_char c :: nat) \<le> 57) \<longleftrightarrow> c \<in> set ''0123456789''"
proof
  assume "48 \<le> (of_char c :: nat) \<and> (of_char c :: nat) \<le> 57"
  then have "(of_char c :: nat) \<in> of_char ` set ''0123456789''" by (simp; arith)
  then show "c \<in> set ''0123456789''" by (simp only: inj_image_mem_iff[OF inj_of_char])
next
  assume "c \<in> set ''0123456789''"
  then show "48 \<le> (of_char c :: nat) \<and> (of_char c :: nat) \<le> 57" by auto
qed

lemma lower_range:
  "(97 \<le> (of_char c :: nat) \<and> (of_char c :: nat) \<le> 102) \<longleftrightarrow> c \<in> set ''abcdef''"
proof
  assume "97 \<le> (of_char c :: nat) \<and> (of_char c :: nat) \<le> 102"
  then have "(of_char c :: nat) \<in> of_char ` set ''abcdef''" by (simp; arith)
  then show "c \<in> set ''abcdef''" by (simp only: inj_image_mem_iff[OF inj_of_char])
next
  assume "c \<in> set ''abcdef''"
  then show "97 \<le> (of_char c :: nat) \<and> (of_char c :: nat) \<le> 102" by auto
qed

lemma upper_range:
  "(65 \<le> (of_char c :: nat) \<and> (of_char c :: nat) \<le> 70) \<longleftrightarrow> c \<in> set ''ABCDEF''"
proof
  assume "65 \<le> (of_char c :: nat) \<and> (of_char c :: nat) \<le> 70"
  then have "(of_char c :: nat) \<in> of_char ` set ''ABCDEF''" by (simp; arith)
  then show "c \<in> set ''ABCDEF''" by (simp only: inj_image_mem_iff[OF inj_of_char])
next
  assume "c \<in> set ''ABCDEF''"
  then show "65 \<le> (of_char c :: nat) \<and> (of_char c :: nat) \<le> 70" by auto
qed

lemma isHexDigit_ranges:
  "isHexDigit c \<longleftrightarrow>
     ((of_char c :: 8 word) \<ge> of_char CHR ''0'' \<and> (of_char c :: 8 word) \<le> of_char CHR ''9'')
   \<or> ((of_char c :: 8 word) \<ge> of_char CHR ''a'' \<and> (of_char c :: 8 word) \<le> of_char CHR ''f'')
   \<or> ((of_char c :: 8 word) \<ge> of_char CHR ''A'' \<and> (of_char c :: 8 word) \<le> of_char CHR ''F'')"
proof -
  have "isHexDigit c \<longleftrightarrow> c \<in> set ''0123456789'' \<or> c \<in> set ''abcdef'' \<or> c \<in> set ''ABCDEF''"
    unfolding isHexDigit_def by auto
  also have "\<dots> \<longleftrightarrow> (48 \<le> (of_char c :: nat) \<and> (of_char c :: nat) \<le> 57)
      \<or> (97 \<le> (of_char c :: nat) \<and> (of_char c :: nat) \<le> 102)
      \<or> (65 \<le> (of_char c :: nat) \<and> (of_char c :: nat) \<le> 70)"
    by (simp only: digit_range lower_range upper_range)
  also have "\<dots> \<longleftrightarrow> ((of_char c :: 8 word) \<ge> of_char CHR ''0'' \<and> (of_char c :: 8 word) \<le> of_char CHR ''9'')
   \<or> ((of_char c :: 8 word) \<ge> of_char CHR ''a'' \<and> (of_char c :: 8 word) \<le> of_char CHR ''f'')
   \<or> ((of_char c :: 8 word) \<ge> of_char CHR ''A'' \<and> (of_char c :: 8 word) \<le> of_char CHR ''F'')"
    by (simp only: of_char_word_nat) simp
  finally show ?thesis .
qed

lemma parseLength_hex_step:
  assumes "isHexDigit c"
  shows "\<exists>l. parseLength (c # cs) len = parseLength cs l"
proof -
  let ?b = "of_char c :: 8 word"
  consider (dig) "?b \<ge> of_char CHR ''0'' \<and> ?b \<le> of_char CHR ''9''"
    | (low) "\<not> (?b \<ge> of_char CHR ''0'' \<and> ?b \<le> of_char CHR ''9'')"
            "?b \<ge> of_char CHR ''a'' \<and> ?b \<le> of_char CHR ''f''"
    | (upp) "\<not> (?b \<ge> of_char CHR ''0'' \<and> ?b \<le> of_char CHR ''9'')"
            "\<not> (?b \<ge> of_char CHR ''a'' \<and> ?b \<le> of_char CHR ''f'')"
            "?b \<ge> of_char CHR ''A'' \<and> ?b \<le> of_char CHR ''F''"
    using assms isHexDigit_ranges[of c] by blast
  then show ?thesis
  proof cases
    case dig
    have "parseLength (c # cs) len
          = parseLength cs (push_bit 4 len OR ucast (?b - of_char CHR ''0''))"
      unfolding parseLength.simps Let_def using dig by (simp only: if_True if_False simp_thms)
    then show ?thesis by blast
  next
    case low
    have "parseLength (c # cs) len
          = parseLength cs (push_bit 4 len OR (ucast (?b - of_char CHR ''a'') + 10))"
      unfolding parseLength.simps Let_def using low by (simp only: if_True if_False simp_thms)
    then show ?thesis by blast
  next
    case upp
    have "parseLength (c # cs) len
          = parseLength cs (push_bit 4 len OR (ucast (?b - of_char CHR ''A'') + 10))"
      unfolding parseLength.simps Let_def using upp by (simp only: if_True if_False simp_thms)
    then show ?thesis by blast
  qed
qed

lemma parseLength_nonhex_step:
  assumes "\<not> isHexDigit c"
  shows "parseLength (c # cs) len = Inl (ErrProtocol c)"
proof -
  let ?b = "of_char c :: 8 word"
  have n: "\<not> (?b \<ge> of_char CHR ''0'' \<and> ?b \<le> of_char CHR ''9'')"
      "\<not> (?b \<ge> of_char CHR ''a'' \<and> ?b \<le> of_char CHR ''f'')"
      "\<not> (?b \<ge> of_char CHR ''A'' \<and> ?b \<le> of_char CHR ''F'')"
    using assms isHexDigit_ranges[of c] by blast+
  show ?thesis unfolding parseLength.simps Let_def using n by (simp only: if_True if_False simp_thms)
qed

lemma parseLength_nonhex:
  "\<not> list_all isHexDigit buf \<Longrightarrow>
   parseLength buf len = Inl (ErrProtocol (hd (dropWhile isHexDigit buf)))"
proof (induction buf arbitrary: len)
  case Nil
  then show ?case by simp
next
  case (Cons c cs)
  show ?case
  proof (cases "isHexDigit c")
    case True
    then have rest: "\<not> list_all isHexDigit cs" using Cons.prems by simp
    obtain l where l: "parseLength (c # cs) len = parseLength cs l"
      using parseLength_hex_step[OF True] by blast
    have "parseLength cs l = Inl (ErrProtocol (hd (dropWhile isHexDigit cs)))"
      by (rule Cons.IH[OF rest])
    then show ?thesis using True l by (simp del: parseLength.simps)
  next
    case False
    then show ?thesis using parseLength_nonhex_step[OF False]
      by (simp del: parseLength.simps)
  qed
qed

lemma ReadFull_append: "ReadFull (length s) (s @ rest) = Inr (s, rest)"
  by (simp add: ReadFull_def)

text \<open>
  C2. For every string \<open>s\<close> shorter than \<open>2^16\<close>, \<open>ReadLengthPrefixed\<close> applied to what
  \<open>writeCommand\<close> wrote for \<open>s\<close>, followed by any further input, returns \<open>s\<close> and leaves
  the further input; and on an input whose first four bytes contain a byte that is not a
  hexadecimal digit it returns the protocol error (for the first such byte).
\<close>

theorem framing_roundtrip:
  "(length s < 2 ^ 16 \<longrightarrow>
      ReadLengthPrefixed (writeCommand [] s @ rest) = (Inr s, rest))
   \<and> (length buf = 4 \<and> \<not> list_all isHexDigit buf \<longrightarrow>
      fst (ReadLengthPrefixed (buf @ rest)) = Inl (ErrProtocol (hd (dropWhile isHexDigit buf))))"
proof (intro conjI impI)
  assume len: "length s < 2 ^ 16"
  then have n: "length s < 65536" by simp
  have l4: "length (Sprintf_04x (length s)) = 4" by (simp add: Sprintf_04x_digits[OF n])
  have rf: "ReadFull 4 (Sprintf_04x (length s) @ s @ rest) = Inr (Sprintf_04x (length s), s @ rest)"
    using ReadFull_append[of "Sprintf_04x (length s)" "s @ rest"] by (simp only: l4)
  have pl: "parseLength (Sprintf_04x (length s)) 0 = Inr (of_nat (length s))"
    by (rule parseLength_Sprintf[OF n])
  have un: "unat (of_nat (length s) :: 32 word) = length s"
    using n by (simp add: unat_of_nat)
  have z: "(of_nat (length s) :: 32 word) = 0 \<longleftrightarrow> s = []"
  proof
    assume "(of_nat (length s) :: 32 word) = 0"
    then have "unat (of_nat (length s) :: 32 word) = 0" by simp
    then show "s = []" using un by simp
  next
    assume "s = []"
    then show "(of_nat (length s) :: 32 word) = 0" by simp
  qed
  show "ReadLengthPrefixed (writeCommand [] s @ rest) = (Inr s, rest)"
    by (simp add: ReadLengthPrefixed_def writeCommand_def rf pl un z ReadFull_append)
next
  assume a: "length buf = 4 \<and> \<not> list_all isHexDigit buf"
  then have rf: "ReadFull 4 (buf @ rest) = Inr (buf, rest)"
    using ReadFull_append[of buf rest] by simp
  show "fst (ReadLengthPrefixed (buf @ rest)) = Inl (ErrProtocol (hd (dropWhile isHexDigit buf)))"
    using a by (simp add: ReadLengthPrefixed_def rf parseLength_nonhex)
qed

theorem framing_roundtrip_witness:
  "length ''host:version'' < (2::nat) ^ 16
   \<and> writeCommand [] ''host:version'' = ''000chost:version''
   \<and> ReadLengthPrefixed (writeCommand [] ''host:version'' @ ''OKAY'') = (Inr ''host:version'', ''OKAY'')
   \<and> length ''00g4'' = 4 \<and> \<not> list_all isHexDigit ''00g4''
   \<and> fst (ReadLengthPrefixed (''00g4'' @ ''abcd'')) = Inl (ErrProtocol CHR ''g'')"
proof -
  have w: "writeCommand [] ''host:version'' = ''000chost:version''"
    by (simp add: writeCommand_def Sprintf_04x_def hexstr_lt16 hexdigit_def replicate_small)
  have h: "length ''00g4'' = 4 \<and> \<not> list_all isHexDigit ''00g4''"
    by (simp add: isHexDigit_def)
  have d: "hd (dropWhile isHexDigit ''00g4'') = CHR ''g''"
    by (simp add: isHexDigit_def)
  show ?thesis
    using framing_roundtrip [of "''host:version''" "''OKAY''" "''00g4''"]
          framing_roundtrip [of "''host:version''" "''abcd''" "''00g4''"] w h d
    by simp
qed

section \<open>Tracker: reconnect delays\<close>

lemma backoff_step:
  "min (wrap64 (backoffDelay k * 2)) reconnectMaxDelay = backoffDelay (Suc k)"
proof -
  consider "k = 0" | "k = 1" | "k = 2" | "k = 3" | "k = 4" | "5 \<le> k" by linarith
  then show ?thesis
    by cases (simp_all add: backoffDelay_def wrap64_def reconnectMaxDelay_def Second_def)
qed

lemma Run_loop_lost:
  "Run_loop (backoffDelay k) (replicate n StreamLost @ rest) waited =
   Run_loop (backoffDelay (k + n)) rest (waited @ map backoffDelay [k..<k + n])"
proof (induction n arbitrary: k waited)
  case 0
  then show ?case by simp
next
  case (Suc n)
  have "Run_loop (backoffDelay k) (replicate (Suc n) StreamLost @ rest) waited
        = Run_loop (backoffDelay (Suc k)) (replicate n StreamLost @ rest)
            (waited @ [backoffDelay k])"
    by (simp add: backoff_step)
  also have "\<dots> = Run_loop (backoffDelay (Suc k + n)) rest
            ((waited @ [backoffDelay k]) @ map backoffDelay [Suc k..<Suc k + n])"
    by (rule Suc.IH)
  finally show ?case by (simp add: upt_rec[of k])
qed

lemma base_delay: "reconnectBaseDelay = backoffDelay 0"
  by (simp add: reconnectBaseDelay_def backoffDelay_def wrap64_def Second_def)

text \<open>
  C9. While every connection attempt fails and the scope is not cancelled, the delays
  \<open>Run\<close> waits are 1, 2, 4, 8, 16, 30, 30, ... seconds (\<open>2^i\<close> seconds for the first five,
  30 seconds from then on) and \<open>Run\<close> does not return; it returns when a pass
  finds the scope cancelled, having waited exactly those delays.
\<close>

theorem backoff_sequence:
  "Run (replicate n StreamLost) = (map backoffDelay [0..<n], False)
   \<and> (p \<noteq> StreamLost \<longrightarrow>
        Run (replicate n StreamLost @ p # ps) = (map backoffDelay [0..<n], True))
   \<and> map backoffDelay [0..<7] = map (\<lambda>s. s * Second) [1, 2, 4, 8, 16, 30, 30]
   \<and> (\<forall>i \<ge> 5. backoffDelay i = 30 * Second)"
proof -
  have 1: "Run (replicate n StreamLost) = (map backoffDelay [0..<n], False)"
    using Run_loop_lost[of 0 n "[]" "[]"] by (simp add: Run_def base_delay)
  have 2: "Run (replicate n StreamLost @ p # ps) = (map backoffDelay [0..<n], True)"
    if "p \<noteq> StreamLost"
    using Run_loop_lost[of 0 n "p # ps" "[]"] that
    by (cases p) (simp_all add: Run_def base_delay)
  have 3: "map backoffDelay [0..<7] = map (\<lambda>s. s * Second) [1, 2, 4, 8, 16, 30, 30]"
    by (simp add: backoffDelay_def upt_rec[of _ "numeral _"] upt_rec[of _ "Suc _"])
  have 4: "\<forall>i \<ge> 5. backoffDelay i = 30 * Second"
    by (simp add: backoffDelay_def)
  show ?thesis using 1 2 3 4 by blast
qed

theorem backoff_sequence_witness:
  "CancelledInWait \<noteq> StreamLost
   \<and> Run (replicate 7 StreamLost @ [CancelledInWait])
      = ([1000000000, 2000000000, 4000000000, 8000000000, 16000000000, 30000000000,
          30000000000], True)"
  using backoff_sequence [of 7 CancelledInWait "[]"]
  by (simp add: Second_def)

section \<open>Socket-table parser: addresses and rows\<close>

text \<open>
  C1. \<open>parseHexIP\<close> decodes the two IPv4 examples as the claim says, but it renders the
  IPv6-mapped IPv4 address \<open>::ffff:192.168.1.1\<close> as eight hexadecimal groups, not as
  \<open>192.168.1.1\<close>.
\<close>

theorem parseHexIP_mapped_unnormalised:
  "parseHexIP ''0100007F'' = Inr ''127.0.0.1''
   \<and> parseHexIP ''0101A8C0'' = Inr ''192.168.1.1''
   \<and> parseHexIP ''0000000000000000FFFF00000101A8C0'' = Inr ''0:0:0:0:0:ffff:c0a8:101''"
  by code_simp

lemma tcpTable_parsed:
  "fst (ParseProcNet (NewProcNetParser ''device1'') tcpTable ProtoTCP now)
     = [tcpConn1 now, tcpConn2 now]"
  by code_simp

lemma tcpTable_header_parsed:
  "fst (ParseProcNet (NewProcNetParser ''device1'') (tcpHeader @ [CHR 0x0A] @ tcpTable)
          ProtoTCP now)
     = [tcpConn1 now, tcpConn2 now]"
  by code_simp

lemma loopRows_hex:
  "isLoopbackHex (localHex loopRow4) \<and> isLoopbackHex (remoteHex loopRow4)
   \<and> isLoopbackHex (localHex loopRow6) \<and> isLoopbackHex (remoteHex loopRow6)
   \<and> isLoopbackHex (localHex loopRowMapped) \<and> isLoopbackHex (remoteHex loopRowMapped)"
  by code_simp

lemma loopRow4_parsed:
  "fst (ParseProcNet (NewProcNetParser ''device1'') loopRow4 ProtoTCP 0)
     = [loopConn ''127.0.0.2'']"
  by code_simp

lemma loopRow6_parsed:
  "fst (ParseProcNet (NewProcNetParser ''device1'') loopRow6 ProtoTCP 0)
     = [loopConn ''0:0:0:0:0:0:0:1'']"
  by code_simp

lemma loopRowMapped_parsed:
  "fst (ParseProcNet (NewProcNetParser ''device1'') loopRowMapped ProtoTCP 0)
     = [loopConn ''0:0:0:0:0:ffff:7f00:1'']"
  by code_simp

text \<open>
  C3. The three-row table (with or without its header line) yields exactly two
  connections, both established with UID 1000, the first to 174.216.14.34:443 and the
  second to 172.200.70.78:80, and its row with local address 127.0.0.1 and remote address
  0.0.0.0 in state LISTEN is dropped. But rows whose local and remote address are both
  loopback addresses are emitted when the address is not rendered as 127.0.0.1: both
  127.0.0.2, both \<open>::1\<close> (IPv6 table), both \<open>::ffff:127.0.0.1\<close> (IPv6 table).
\<close>

theorem ParseProcNet_loopback_emitted:
  "fst (ParseProcNet (NewProcNetParser ''device1'') tcpTable ProtoTCP now)
     = [tcpConn1 now, tcpConn2 now]
   \<and> fst (ParseProcNet (NewProcNetParser ''device1'') (tcpHeader @ [CHR 0x0A] @ tcpTable)
            ProtoTCP now)
     = [tcpConn1 now, tcpConn2 now]
   \<and> State (tcpConn1 now) = ConnEstablished \<and> UID (tcpConn1 now) = 1000
   \<and> RemoteIP (tcpConn1 now) = ''174.216.14.34'' \<and> RemotePort (tcpConn1 now) = 443
   \<and> State (tcpConn2 now) = ConnEstablished \<and> UID (tcpConn2 now) = 1000
   \<and> RemoteIP (tcpConn2 now) = ''172.200.70.78'' \<and> RemotePort (tcpConn2 now) = 80
   \<and> isLoopbackHex (localHex loopRow4) \<and> isLoopbackHex (remoteHex loopRow4)
   \<and> fst (ParseProcNet (NewProcNetParser ''device1'') loopRow4 ProtoTCP 0)
      = [loopConn ''127.0.0.2'']
   \<and> isLoopbackHex (localHex loopRow6) \<and> isLoopbackHex (remoteHex loopRow6)
   \<and> fst (ParseProcNet (NewProcNetParser ''device1'') loopRow6 ProtoTCP 0)
      = [loopConn ''0:0:0:0:0:0:0:1'']
   \<and> isLoopbackHex (localHex loopRowMapped) \<and> isLoopbackHex (remoteHex loopRowMapped)
   \<and> fst (ParseProcNet (NewProcNetParser ''device1'') loopRowMapped ProtoTCP 0)
      = [loopConn ''0:0:0:0:0:ffff:7f00:1'']"
  using tcpTable_parsed[of now] tcpTable_header_parsed[of now] loopRows_hex
    loopRow4_parsed loopRow6_parsed loopRowMapped_parsed
  by (simp add: tcpConn1_def tcpConn2_def)

lemma not_mask_bytes:
  "(0xC0 :: 8 word) = NOT (mask 6)" "(0xF0 :: 8 word) = NOT (mask 4)"
  "(0xFE :: 8 word) = NOT (mask 1)"
  by (simp_all add: mask_eq_exp_minus_1)

lemma and_not_mask8: "(b :: 8 word) AND NOT (mask n) = push_bit n (drop_bit n b)"
  by (rule bit_word_eqI) (auto simp add: bit_simps)

lemma byte_prefix:
  fixes b :: "8 word"
  assumes "unat b div 2 ^ n = k"
  shows "b AND NOT (mask n) = push_bit n (of_nat k)"
proof -
  have "unat (drop_bit n b) = drop_bit n (unat b)" by (rule unat_drop_bit_eq)
  also have "\<dots> = k" using assms by (simp only: drop_bit_eq_div)
  finally have "of_nat (unat (drop_bit n b)) = (of_nat k :: 8 word)" by simp
  then have "drop_bit n b = of_nat k" by (simp only: of_nat_unat unsigned_word_eqI ucast_id)
  then show ?thesis by (simp only: and_not_mask8)
qed

lemma byte_eq: "unat (b :: 8 word) = k \<Longrightarrow> b = of_nat k"
proof -
  assume "unat b = k"
  moreover have "(of_nat (unat b) :: 8 word) = b" by simp
  ultimately show ?thesis by simp
qed

lemma unat_byte_lt: "unat (b :: 8 word) < 256"
  using unsigned_less[of b, where 'a=nat] by simp

lemma valBE_bound: "valBE bs < 256 ^ length bs"
proof (induction bs)
  case Nil
  then show ?case by simp
next
  case (Cons b bs)
  have "unat b * 256 ^ length bs + valBE bs < unat b * 256 ^ length bs + 256 ^ length bs"
    using Cons.IH by simp
  also have "\<dots> = (unat b + 1) * 256 ^ length bs" by simp
  also have "\<dots> \<le> 256 * 256 ^ length bs"
    using unat_byte_lt[of b] by (intro mult_right_mono) simp_all
  finally show ?case by simp
qed

lemma Contains_v4:
  "Contains ([n0, n1, n2, n3], [m0, m1, m2, m3]) (v4InV6Prefix @ [a, b, c, d]) \<longleftrightarrow>
     n0 AND m0 = a AND m0 \<and> n1 AND m1 = b AND m1 \<and> n2 AND m2 = c AND m2 \<and> n3 AND m3 = d AND m3"
  by (simp add: Contains_def To4_def v4InV6Prefix_def Let_def numeral_eq_Suc)

lemma split256:
  fixes A B k :: nat
  assumes "A * 256 + B = k" "B < 256"
  shows "A = k div 256" "B = k mod 256"
  using assms by auto

lemma valBE4:
  "valBE [a, b, c, d] = unat a * 16777216 + unat b * 65536 + unat c * 256 + unat d"
  by simp

lemma private_v4_contains:
  assumes "privateV4 (valBE [a, b, c, d])"
  shows "list_ex (\<lambda>network. Contains network (v4InV6Prefix @ [a, b, c, d])) privateRanges"
proof -
  let ?A = "unat a" and ?B = "unat b" and ?C = "unat c" and ?D = "unat d"
  let ?v = "?A * 16777216 + ?B * 65536 + ?C * 256 + ?D"
  have bd: "?A < 256" "?B < 256" "?C < 256" "?D < 256" by (rule unat_byte_lt)+
  from assms consider
      (n10) "?v div 16777216 = 10"
    | (n172) "?v div 1048576 = 2753"
    | (n192) "?v div 65536 = 49320"
    | (n127) "?v div 16777216 = 127"
    | (n169) "?v div 65536 = 43518"
    unfolding privateV4_def inCIDR_def valBE4 by auto
  then show ?thesis
  proof cases
    case n10
    then have "?A = 10" using bd by linarith
    then have "a = 10" using byte_eq[of a 10] by simp
    then have "Contains ([10, 0, 0, 0], [0xff, 0, 0, 0]) (v4InV6Prefix @ [a, b, c, d])"
      by (simp add: Contains_v4)
    then show ?thesis by (simp add: privateRanges_def)
  next
    case n172
    have "?v div 1048576 = ?v div 65536 div 16"
      by (simp add: div_mult2_eq[symmetric])
    also have "?v div 65536 = ?A * 256 + ?B" using bd by linarith
    also have "(?A * 256 + ?B) div 16 = ?A * 16 + ?B div 16" by linarith
    finally have e: "?A * 16 + ?B div 16 = 2753" using n172 by simp
    have x: "?B div 16 < 16" using bd by linarith
    have "(?A * 16 + ?B div 16) div 16 = ?A" using x by simp
    then have a172: "?A = 172" by (simp only: e)
    have ab: "?A = 172" "?B div 16 = 1" using e a172 by simp_all
    have p: "(2::nat) ^ 4 = 16" by simp
    have "b AND NOT (mask 4) = push_bit 4 (of_nat 1)"
      by (rule byte_prefix) (simp only: p ab)
    then have "a = 172" "b AND 0xF0 = 16"
      using byte_eq[OF ab(1)] by (simp_all add: not_mask_bytes)
    then have "Contains ([172, 16, 0, 0], [0xff, 0xf0, 0, 0]) (v4InV6Prefix @ [a, b, c, d])"
      by (simp add: Contains_v4)
    then show ?thesis by (simp add: privateRanges_def)
  next
    case n192
    moreover have "?v div 65536 = ?A * 256 + ?B" using bd by linarith
    ultimately have "?A * 256 + ?B = 49320" by simp
    then have "?A = 49320 div 256" "?B = 49320 mod 256" using bd(2) by (rule split256)+
    then have "?A = 192" "?B = 168" by simp_all
    then have "a = 192" "b = 168" using byte_eq[of a 192] byte_eq[of b 168] by simp_all
    then have "Contains ([192, 168, 0, 0], [0xff, 0xff, 0, 0]) (v4InV6Prefix @ [a, b, c, d])"
      by (simp add: Contains_v4)
    then show ?thesis by (simp add: privateRanges_def)
  next
    case n127
    then have "?A = 127" using bd by linarith
    then have "a = 127" using byte_eq[of a 127] by simp
    then have "Contains ([127, 0, 0, 0], [0xff, 0, 0, 0]) (v4InV6Prefix @ [a, b, c, d])"
      by (simp add: Contains_v4)
    then show ?thesis by (simp add: privateRanges_def)
  next
    case n169
    moreover have "?v div 65536 = ?A * 256 + ?B" using bd by linarith
    ultimately have "?A * 256 + ?B = 43518" by simp
    then have "?A = 43518 div 256" "?B = 43518 mod 256" using bd(2) by (rule split256)+
    then have "?A = 169" "?B = 254" by simp_all
    then have "a = 169" "b = 254" using byte_eq[of a 169] byte_eq[of b 254] by simp_all
    then have "Contains ([169, 254, 0, 0], [0xff, 0xff, 0, 0]) (v4InV6Prefix @ [a, b, c, d])"
      by (simp add: Contains_v4)
    then show ?thesis by (simp add: privateRanges_def)
  qed
qed
lemma valBE_snoc: "valBE (xs @ [y]) = valBE xs * 256 + unat y"
  by (induction xs) (simp_all add: algebra_simps)

lemma valBE_zero: "valBE xs = 0 \<Longrightarrow> xs = replicate (length xs) 0"
proof (induction xs)
  case Nil
  then show ?case by simp
next
  case (Cons b bs)
  then have "unat b = 0" "valBE bs = 0" by simp_all
  then show ?case using Cons.IH by (simp add: unat_eq_0)
qed

lemma To4_v6:
  assumes "length rest = 15" "b0 \<noteq> 0"
  shows "To4 (b0 # rest) = None"
  using assms by (simp add: To4_def numeral_eq_Suc)

lemma Contains_v6_2:
  assumes "length rest = 14" "To4 (b0 # b1 # rest) = None"
  shows "Contains ([n0, n1] @ replicate 14 0, [m0, m1] @ replicate 14 0) (b0 # b1 # rest) \<longleftrightarrow>
           n0 AND m0 = b0 AND m0 \<and> n1 AND m1 = b1 AND m1"
proof -
  have "list_all (\<lambda>i. (([n0, n1] @ replicate 14 0) ! i) AND (([m0, m1] @ replicate 14 0) ! i)
                      = ((b0 # b1 # rest) ! i) AND (([m0, m1] @ replicate 14 0) ! i)) [0..<16]
        \<longleftrightarrow> n0 AND m0 = b0 AND m0 \<and> n1 AND m1 = b1 AND m1"
    (is "list_all ?P _ \<longleftrightarrow> ?R")
  proof
    assume a: "list_all ?P [0..<16]"
    have b: "\<forall>i \<in> set [0..<16]. ?P i" using a by (simp only: list_all_iff)
    have "(0::nat) \<in> set [0..<16]" "(1::nat) \<in> set [0..<16]" by simp_all
    then have "?P 0" "?P 1" using b by blast+
    then show ?R by simp
  next
    assume r: ?R
    have "?P i" if "i < 16" for i
    proof (cases "i < 2")
      case True
      then consider "i = 0" | "i = 1" by linarith
      then show ?thesis using r by cases simp_all
    next
      case False
      define j where "j = i - 2"
      have j: "i = Suc (Suc j)" "j < 14" using False that by (simp_all add: j_def)
      from j show ?thesis by simp
    qed
    then show "list_all ?P [0..<16]" by (simp add: list_all_iff)
  qed
  then show ?thesis using assms by (simp add: Contains_def Let_def)
qed

lemma v6_top:
  assumes "length rest = 14"
  shows "valBE (b0 # b1 # rest) div 2 ^ 112 = unat b0 * 256 + unat b1"
proof -
  have L: "valBE rest < 2 ^ 112" using valBE_bound[of rest] assms by simp
  have "valBE (b0 # b1 # rest) = (unat b0 * 256 + unat b1) * 2 ^ 112 + valBE rest"
    using assms by (simp add: algebra_simps)
  then show ?thesis using L by simp
qed

lemma len16_split:
  assumes "length ip = 16"
  obtains b0 b1 rest where "ip = b0 # b1 # rest" "length rest = 14"
proof -
  obtain b0 t where t: "ip = b0 # t" using assms by (cases ip) auto
  then obtain b1 rest where r: "t = b1 # rest" using assms by (cases t) auto
  have "length rest = 14" using assms t r by simp
  then show thesis using that t r by blast
qed

lemma rep14: "[x, y] @ replicate 14 z = [x, y, z, z, z, z, z, z, z, z, z, z, z, z, z, z]"
  by (simp add: numeral_eq_Suc)

lemma rep15: "replicate 15 z @ [y] = [z, z, z, z, z, z, z, z, z, z, z, z, z, z, z, y]"
  by (simp add: numeral_eq_Suc)

lemma rep16: "replicate 16 z = [z, z, z, z, z, z, z, z, z, z, z, z, z, z, z, z]"
  by (simp add: numeral_eq_Suc)

lemma upt16: "[0..<16] = [0, 1, 2, 3, 4, 5, 6, 7, 8, 9, 10, 11, 12, 13, 14, 15]"
  by (simp add: upt_rec[of _ "numeral _"] upt_rec[of _ "Suc _"])

lemma Contains_one:
  "Contains ([0, 0, 0, 0, 0, 0, 0, 0, 0, 0, 0, 0, 0, 0, 0, 1], replicate 16 0xff)
     (replicate 15 0 @ [1])"
proof -
  have t: "To4 [0, 0, 0, 0, 0, 0, 0, 0, 0, 0, 0, 0, 0, 0, 0, 1 :: 8 word] = None"
    by (simp add: To4_def)
  show ?thesis
    unfolding rep15 rep16 Contains_def Let_def t by (simp add: upt16)
qed
lemma pow118: "(2::nat) ^ 118 = 2 ^ 112 * 64" "(2::nat) ^ 121 = 2 ^ 112 * 512"
  by simp_all

lemma div_top:
  fixes v :: nat
  assumes "v div 2 ^ 112 = X"
  shows "v div 2 ^ 118 = X div 64" "v div 2 ^ 121 = X div 512"
  unfolding pow118 div_mult2_eq assms by (rule refl)+

lemma privateV6_cases:
  assumes "privateV6 v"
  shows "v = 1 \<or> v div 2 ^ 118 = 1018 \<or> v div 2 ^ 121 = 126"
proof -
  have a: "(0xfe80 * 2 ^ 112 :: nat) div 2 ^ 118 = 1018" by simp
  have b: "(0xfc00 * 2 ^ 112 :: nat) div 2 ^ 121 = 126" by simp
  have c: "(128::nat) - 128 = 0" "(128::nat) - 10 = 118" "(128::nat) - 7 = 121" by simp_all
  from assms show ?thesis
    unfolding privateV6_def inCIDR_def c a b by simp
qed
lemma v6_one:
  assumes len: "length ip = 16" and one: "valBE ip = 1"
  shows "ip = replicate 15 0 @ [1]"
proof -
  have ne: "ip \<noteq> []" using len by auto
  then have sn: "butlast ip @ [last ip] = ip" by simp
  have "valBE (butlast ip @ [last ip]) = 1" using one by (simp only: sn)
  then have s: "valBE (butlast ip) * 256 + unat (last ip) = 1" by (simp only: valBE_snoc)
  have z: "valBE (butlast ip) = 0" using s by (cases "valBE (butlast ip)") simp_all
  have l: "unat (last ip) = 1" using s z by simp
  have lb: "length (butlast ip) = 15" using len by simp
  have "butlast ip = replicate 15 0" using valBE_zero[OF z] by (simp only: lb)
  moreover have "last ip = 1" using byte_eq[OF l] by simp
  ultimately show ?thesis using sn by simp
qed

lemma top_fe80:
  fixes A B :: nat
  assumes "(A * 256 + B) div 64 = 1018" "B < 256"
  shows "A = 254" "B div 64 = 2"
proof -
  have "(A * 256 + B) div 64 = A * 4 + B div 64" by simp
  then have e: "A * 4 + B div 64 = 1018" using assms(1) by simp
  have x: "B div 64 < 4" using assms(2) by simp
  have "(A * 4 + B div 64) div 4 = A" using x by simp
  then show a: "A = 254" by (simp only: e)
  show "B div 64 = 2" using e a by simp
qed

lemma top_fc00:
  fixes A B :: nat
  assumes "(A * 256 + B) div 512 = 126" "B < 256"
  shows "A div 2 = 126"
proof -
  have "(A * 256 + B) div 512 = (A * 256 + B) div 256 div 2"
    by (simp add: div_mult2_eq[symmetric])
  also have "(A * 256 + B) div 256 = A" using assms(2) by simp
  finally show ?thesis using assms(1) by simp
qed
lemma rep15n: "replicate 15 z = [z, z, z, z, z, z, z, z, z, z, z, z, z, z, z]"
  by (simp add: numeral_eq_Suc)

lemma range_members:
  "([0, 0, 0, 0, 0, 0, 0, 0, 0, 0, 0, 0, 0, 0, 0, 1], replicate 16 0xff) \<in> set privateRanges"
  "([0xfe, 0x80] @ replicate 14 0, [0xff, 0xc0] @ replicate 14 0) \<in> set privateRanges"
  "([0xfc, 0] @ replicate 14 0, [0xfe, 0] @ replicate 14 0) \<in> set privateRanges"
  unfolding privateRanges_def rep14 rep15n rep16 by simp_all

lemma private_v6_contains:
  assumes len: "length ip = 16" and p: "privateV6 (valBE ip)"
  shows "list_ex (\<lambda>network. Contains network ip) privateRanges"
proof -
  obtain b0 b1 rest where ip: "ip = b0 # b1 # rest" and lr: "length rest = 14"
    using len by (rule len16_split)
  let ?X = "unat b0 * 256 + unat b1"
  have bd: "unat b0 < 256" "unat b1 < 256" by (rule unat_byte_lt)+
  have top: "valBE ip div 2 ^ 112 = ?X" unfolding ip by (rule v6_top[OF lr])
  from privateV6_cases[OF p] consider
      (one) "valBE ip = 1" | (fe80) "?X div 64 = 1018" | (fc00) "?X div 512 = 126"
    unfolding div_top[OF top] by blast
  then show ?thesis
  proof cases
    case one
    have e: "ip = replicate 15 0 @ [1]" using len one by (rule v6_one)
    have "Contains ([0, 0, 0, 0, 0, 0, 0, 0, 0, 0, 0, 0, 0, 0, 0, 1], replicate 16 0xff) ip"
      unfolding e by (rule Contains_one)
    then show ?thesis unfolding list_ex_iff using range_members(1) by blast
  next
    case fe80
    have a: "unat b0 = 254" and b: "unat b1 div 64 = 2"
      using top_fe80[OF fe80 bd(2)] by blast+
    have p6: "(2::nat) ^ 6 = 64" by simp
    have "b1 AND NOT (mask 6) = push_bit 6 (of_nat 2)"
      by (rule byte_prefix) (simp only: p6 b)
    then have w: "b0 = 0xfe" "b1 AND 0xC0 = 0x80"
      using byte_eq[OF a] by (simp_all add: not_mask_bytes)
    have t: "To4 (b0 # b1 # rest) = None"
      by (rule To4_v6) (simp_all add: lr w(1))
    have "Contains ([0xfe, 0x80] @ replicate 14 0, [0xff, 0xc0] @ replicate 14 0) ip"
      unfolding ip Contains_v6_2[OF lr t] using w by simp
    then show ?thesis unfolding list_ex_iff using range_members(2) by blast
  next
    case fc00
    have b: "unat b0 div 2 = 126" using top_fc00[OF fc00 bd(2)] .
    have p1: "(2::nat) ^ 1 = 2" by simp
    have "b0 AND NOT (mask 1) = push_bit 1 (of_nat 126)"
      by (rule byte_prefix) (simp only: p1 b)
    then have w: "b0 AND 0xFE = 0xFC" by (simp add: not_mask_bytes)
    have nz: "b0 \<noteq> 0" using w by auto
    have t: "To4 (b0 # b1 # rest) = None"
      by (rule To4_v6) (simp_all add: lr nz)
    have "Contains ([0xfc, 0] @ replicate 14 0, [0xfe, 0] @ replicate 14 0) ip"
      unfolding ip Contains_v6_2[OF lr t] using w by simp
    then show ?thesis unfolding list_ex_iff using range_members(3) by blast
  qed
qed
lemma len4: "length xs = 4 \<Longrightarrow> \<exists>a b c d. xs = [a, b, c, d]"
  by (auto simp add: numeral_eq_Suc length_Suc_conv)

lemma private_contains:
  assumes len: "length ip = 16" and p: "inPrivateRange ip"
  shows "list_ex (\<lambda>network. Contains network ip) privateRanges"
proof (cases "privateV6 (valBE ip)")
  case True
  then show ?thesis by (rule private_v6_contains[OF len])
next
  case False
  then have pre: "take 12 ip = v4InV6Prefix" and v4: "privateV4 (valBE (drop 12 ip))"
    using p unfolding inPrivateRange_def by blast+
  have l4: "length (drop 12 ip) = 4" using len by simp
  then obtain a b c d where d: "drop 12 ip = [a, b, c, d]"
    using len4[of "drop 12 ip"] by blast
  have "take 12 ip @ drop 12 ip = ip" by (rule append_take_drop_id)
  then have ip: "ip = v4InV6Prefix @ [a, b, c, d]" unfolding pre d by (rule sym)
  have "privateV4 (valBE [a, b, c, d])" using v4 unfolding d .
  then show ?thesis unfolding ip by (rule private_v4_contains)
qed

lemma sample_private:
  "inPrivateRange (ip4 192 168 1 1)"
  "inPrivateRange (ip4 172 31 255 254)"
  "inPrivateRange [0xfe, 0x80, 0, 0, 0, 0, 0, 0, 0, 0, 0, 0, 0, 0, 0, 1]"
  "\<not> inPrivateRange (ip4 8 8 8 8)"
  by (simp_all add: inPrivateRange_def ip4_def v4InV6Prefix_def privateV4_def privateV6_def
        inCIDR_def)

lemma public_is_queued:
  "ResolveHostname sampleParseIP sampleResolver ''8.8.8.8''
     = ([], sampleResolver\<lparr>dnsPend := {''8.8.8.8''}, dnsQueue := [''8.8.8.8'']\<rparr>,
        [CacheRead ''8.8.8.8'', SnooperLookupIP ''8.8.8.8'', PendRead ''8.8.8.8'',
         PendAdd ''8.8.8.8'', QueueSend ''8.8.8.8''])"
proof -
  have "\<not> isPrivateIP sampleParseIP ''8.8.8.8''"
    by (simp add: isPrivateIP_def sampleParseIP_def ip4_def privateRanges_def Contains_def
          To4_def v4InV6Prefix_def upt_rec[of _ "numeral _"] upt_rec[of _ "Suc _"])
  then show ?thesis
    by (simp add: ResolveHostname_def sampleResolver_def LookupIP_def queueResolve_def)
qed

text \<open>
  C8. For every address text that \<open>net.ParseIP\<close> parses to a 16-byte address in one of
  the ranges 10.0.0.0/8, 172.16.0.0/12, 192.168.0.0/16, 127.0.0.0/8, 169.254.0.0/16,
  ::1/128, fe80::/10, fc00::/7, \<open>ResolveHostname\<close> returns the empty string, leaves the
  resolver (name cache, pending set and queue) as it was, and touches neither the cache,
  nor the snooper, nor the pending set, nor the queue.
\<close>

theorem resolver_privacy:
  assumes "ParseIP ip = Some parsed" and "length parsed = 16" and "inPrivateRange parsed"
  shows "ResolveHostname ParseIP r ip = ([], r, [])"
proof -
  have "isPrivateIP ParseIP ip"
    using assms(1) private_contains[OF assms(2,3)] by (simp add: isPrivateIP_def)
  then show ?thesis by (simp add: ResolveHostname_def)
qed

theorem resolver_privacy_witness:
  "sampleParseIP ''192.168.1.1'' = Some (ip4 192 168 1 1)
   \<and> length (ip4 192 168 1 1) = 16
   \<and> inPrivateRange (ip4 192 168 1 1)
   \<and> dnsCache sampleResolver ''192.168.1.1'' = Some ''router.lan''
   \<and> ResolveHostname sampleParseIP sampleResolver ''192.168.1.1'' = ([], sampleResolver, [])"
proof -
  have p: "sampleParseIP ''192.168.1.1'' = Some (ip4 192 168 1 1)"
    by (simp add: sampleParseIP_def)
  have l: "length (ip4 192 168 1 1) = 16" by (simp add: ip4_def v4InV6Prefix_def)
  have i: "inPrivateRange (ip4 192 168 1 1)"
    by (simp add: inPrivateRange_def ip4_def v4InV6Prefix_def privateV4_def inCIDR_def)
  have c: "dnsCache sampleResolver ''192.168.1.1'' = Some ''router.lan''"
    by (simp add: sampleResolver_def)
  have "ResolveHostname sampleParseIP sampleResolver ''192.168.1.1'' = ([], sampleResolver, [])"
    using p l i by (rule resolver_privacy)
  then show ?thesis using p l i c by blast
qed

end
